theory Spec2Isabelle
  imports Main "HOL-Library.Word"
begin

unbundle bit_operations_syntax

section \<open>Strings and the case-insensitive key order (src/shared/directory_tree.h)\<close>

datatype tree_error = BadAlloc | UsageError string | BadLexicalCast | NodeMissing | EmptyPath | ArenaOutdated

text \<open>
  \<^verbatim>\<open>c_str()\<close>: what a C function reads of a string, its bytes up to the first NUL.
\<close>

definition c_str :: "string \<Rightarrow> string" where
  "c_str s = takeWhile (\<lambda>c. c \<noteq> CHR 0x00) s"

text \<open>
  Modelled from the spec: \<^verbatim>\<open>_stricmp\<close> of the C runtime, which is not part of the
  repository. ``Keys compare under ASCII case folding (\<^verbatim>\<open>'A'..'Z'\<close> to \<^verbatim>\<open>'a'..'z'\<close>).
  Non-ASCII bytes compare by value.'' It walks both strings, folds each byte and returns
  the difference of the first pair of bytes that differ.
\<close>

definition tolower_ascii :: "char \<Rightarrow> char" where
  "tolower_ascii c =
     (case map_of (zip ''ABCDEFGHIJKLMNOPQRSTUVWXYZ'' ''abcdefghijklmnopqrstuvwxyz'') c of
        Some l \<Rightarrow> l
      | None \<Rightarrow> c)"

fun stricmp :: "string \<Rightarrow> string \<Rightarrow> int" where
  "stricmp [] [] = 0"
| "stricmp [] (b # bs) = - int (of_char (tolower_ascii b))"
| "stricmp (a # as) [] = int (of_char (tolower_ascii a))"
| "stricmp (a # as) (b # bs) =
     (if tolower_ascii a = tolower_ascii b then stricmp as bs
      else int (of_char (tolower_ascii a)) - int (of_char (tolower_ascii b)))"

text \<open>\<^verbatim>\<open>struct CILess\<close>, the comparator of the child map.\<close>

definition CILess :: "string \<Rightarrow> string \<Rightarrow> bool" where
  "CILess lhs rhs = (stricmp (c_str lhs) (c_str rhs) < 0)"

text \<open>
  The spec's words for a key: its bytes under ASCII case folding, each as its value.
  Two keys are the same key of a map when their folded bytes are equal.
\<close>

definition fold_key :: "string \<Rightarrow> nat list" where
  "fold_key k = map (\<lambda>c. of_char (tolower_ascii c)) (c_str k)"

subsection \<open>The child map\<close>

text \<open>
  \<^verbatim>\<open>bi::map<StringT, NodePtrT, CILess>\<close> is an ordered map: an association list kept
  sorted by \<open>CILess\<close>, in which no two keys are equivalent. \<open>map_find\<close> is \<^verbatim>\<open>find\<close>,
  \<open>map_insert\<close> is \<^verbatim>\<open>insert\<close> (which keeps an existing entry and says whether it
  inserted), \<open>map_assign\<close> is \<^verbatim>\<open>m[k] = v\<close> (which keeps the key of an existing entry
  and replaces its value).
\<close>

type_synonym addr = nat

type_synonym NodeMapT = "(string \<times> addr) list"

fun map_find :: "NodeMapT \<Rightarrow> string \<Rightarrow> addr option" where
  "map_find [] k = None"
| "map_find ((k', v) # m) k =
     (if CILess k' k then map_find m k
      else if CILess k k' then None
      else Some v)"

fun map_insert :: "NodeMapT \<Rightarrow> string \<Rightarrow> addr \<Rightarrow> NodeMapT \<times> addr \<times> bool" where
  "map_insert [] k v = ([(k, v)], v, True)"
| "map_insert ((k', v') # m) k v =
     (if CILess k' k then
        (case map_insert m k v of (m', r, b) \<Rightarrow> ((k', v') # m', r, b))
      else if CILess k k' then ((k, v) # (k', v') # m, v, True)
      else ((k', v') # m, v', False))"

fun map_assign :: "NodeMapT \<Rightarrow> string \<Rightarrow> addr \<Rightarrow> NodeMapT" where
  "map_assign [] k v = [(k, v)]"
| "map_assign ((k', v') # m) k v =
     (if CILess k' k then (k', v') # map_assign m k v
      else if CILess k k' then (k, v) # (k', v') # m
      else (k', v) # m)"

fun map_erase :: "NodeMapT \<Rightarrow> string \<Rightarrow> NodeMapT" where
  "map_erase [] k = []"
| "map_erase ((k', v') # m) k =
     (if CILess k' k then (k', v') # map_erase m k
      else if CILess k k' then (k', v') # m
      else m)"

section \<open>Nodes and the arena that holds them\<close>

type_synonym TreeFlags = "8 word"

definition FLAG_DIRECTORY :: TreeFlags where
  "FLAG_DIRECTORY = 0x01"

definition FLAG_DUMMY :: TreeFlags where
  "FLAG_DUMMY = 0x02"

definition FLAG_FIRSTUSERFLAG :: TreeFlags where
  "FLAG_FIRSTUSERFLAG = 0x10"

text \<open>
  \<^verbatim>\<open>class DirectoryTree\<close>. Nodes refer to each other by pointer (\<^verbatim>\<open>m_Parent\<close> and
  \<^verbatim>\<open>m_Self\<close> weakly, the values of \<^verbatim>\<open>m_Nodes\<close> by shared pointer), so a node is
  modelled as a record in a store and a pointer as an address in that store; a null
  pointer is \<open>None\<close>. The store keeps no reference counts: a node dropped from every map
  stays in the store, unreachable. A weak pointer is read as the address it was set to.
\<close>

record 'd DirectoryTree =
  m_Flags :: TreeFlags
  m_Parent :: "addr option"
  m_Self :: "addr option"
  m_Name :: string
  m_Data :: 'd
  m_Nodes :: NodeMapT

text \<open>
  The constructor
  \<^verbatim>\<open>DirectoryTree(name, flags, parent, data, allocator)\<close>; the flags are narrowed to
  \<^verbatim>\<open>TreeFlags\<close> (\<^verbatim>\<open>uint8_t\<close>) by the call.
\<close>

definition DirectoryTree_ctor :: "string \<Rightarrow> 32 word \<Rightarrow> addr option \<Rightarrow> 'd \<Rightarrow> 'd DirectoryTree" where
  "DirectoryTree_ctor name flags parent data =
     \<lparr> m_Flags = ucast flags, m_Parent = parent, m_Self = None, m_Name = c_str name,
       m_Data = data, m_Nodes = [] \<rparr>"

record TreeMeta =
  tree :: addr
  referenceCount :: int
  outdated :: bool

text \<open>
  Modelled from the spec: the shared memory arena (\<^verbatim>\<open>SharedMemoryT\<close> of
  \<^verbatim>\<open>shared_memory.h\<close>, which is not part of the repository): ``a named, sized block of
  cross-process memory'' whose allocation ``can fail with a distinguished OutOfArena
  condition'' (\<^verbatim>\<open>bi::bad_alloc\<close>), and which holds ``exactly one named root object
  (Meta) of type TreeMeta''; ``all other Node allocations are anonymous''. The size is
  counted in nodes: an arena of size \<open>n\<close> holds \<open>n\<close> nodes, and the address of a node is
  its position in the arena.
\<close>

record 'd SharedMemoryT =
  get_size :: nat
  shm_nodes :: "'d DirectoryTree list"
  shm_meta :: "TreeMeta option"

definition construct_node :: "'d SharedMemoryT \<Rightarrow> 'd DirectoryTree \<Rightarrow> tree_error + (addr \<times> 'd SharedMemoryT)" where
  "construct_node shm n =
     (if length (shm_nodes shm) < get_size shm
      then Inr (length (shm_nodes shm), shm \<lparr> shm_nodes := shm_nodes shm @ [n] \<rparr>)
      else Inl BadAlloc)"

definition node_at :: "'d SharedMemoryT \<Rightarrow> addr \<Rightarrow> 'd DirectoryTree" where
  "node_at shm a = shm_nodes shm ! a"

definition node_upd :: "addr \<Rightarrow> ('d DirectoryTree \<Rightarrow> 'd DirectoryTree) \<Rightarrow> 'd SharedMemoryT \<Rightarrow> 'd SharedMemoryT" where
  "node_upd a f shm = shm \<lparr> shm_nodes := (shm_nodes shm)[a := f (shm_nodes shm ! a)] \<rparr>"

subsection \<open>Operations of a node\<close>

definition setFlag :: "TreeFlags \<Rightarrow> bool \<Rightarrow> 'd DirectoryTree \<Rightarrow> 'd DirectoryTree" where
  "setFlag flag enabled n =
     n \<lparr> m_Flags := (if enabled then m_Flags n OR flag else m_Flags n AND NOT flag) \<rparr>"

definition hasFlag :: "'d DirectoryTree \<Rightarrow> TreeFlags \<Rightarrow> bool" where
  "hasFlag n flag = (m_Flags n AND flag \<noteq> 0)"

definition isDirectory :: "'d DirectoryTree \<Rightarrow> bool" where
  "isDirectory n = hasFlag n FLAG_DIRECTORY"

definition numNodes :: "'d DirectoryTree \<Rightarrow> nat" where
  "numNodes n = length (m_Nodes n)"

text \<open>\<^verbatim>\<open>node(name)\<close>, the lookup of a child; the null pointer is \<open>None\<close>.\<close>

definition node :: "'d DirectoryTree \<Rightarrow> string \<Rightarrow> addr option" where
  "node n name = map_find (m_Nodes n) (c_str name)"

definition node_throw :: "'d DirectoryTree \<Rightarrow> string \<Rightarrow> tree_error + addr" where
  "node_throw n name =
     (case map_find (m_Nodes n) (c_str name) of
        Some a \<Rightarrow> Inr a
      | None \<Rightarrow> Inl NodeMissing)"

definition exists_node :: "'d DirectoryTree \<Rightarrow> string \<Rightarrow> bool" where
  "exists_node n name = (map_find (m_Nodes n) (c_str name) \<noteq> None)"

definition erase :: "string \<Rightarrow> 'd DirectoryTree \<Rightarrow> 'd DirectoryTree" where
  "erase k n = n \<lparr> m_Nodes := map_erase (m_Nodes n) k \<rparr>"

definition clear :: "'d DirectoryTree \<Rightarrow> 'd DirectoryTree" where
  "clear n = n \<lparr> m_Nodes := [] \<rparr>"

text \<open>
  \<^verbatim>\<open>numNodesRecursive\<close> calls itself on every child. In a store the children of a node
  can lead back to the node, and the recursion of the source then never returns; the
  function takes the depth it may recurse to and is \<open>None\<close> when that does not suffice.
\<close>

fun numNodesRecursive :: "nat \<Rightarrow> 'd SharedMemoryT \<Rightarrow> addr \<Rightarrow> nat option"
  and numNodes_loop :: "nat \<Rightarrow> 'd SharedMemoryT \<Rightarrow> NodeMapT \<Rightarrow> nat \<Rightarrow> nat option" where
  "numNodesRecursive 0 shm a = None"
| "numNodesRecursive (Suc fuel) shm a =
     numNodes_loop fuel shm (m_Nodes (node_at shm a)) (numNodes (node_at shm a) + 1)"
| "numNodes_loop fuel shm [] result = Some result"
| "numNodes_loop fuel shm ((k, c) # kvs) result =
     (case numNodesRecursive fuel shm c of
        None \<Rightarrow> None
      | Some r \<Rightarrow> numNodes_loop fuel shm kvs (result + r))"

subsection \<open>Paths\<close>

text \<open>
  Modelled from the spec: the iteration over a \<^verbatim>\<open>boost::filesystem::path\<close> with
  \<^verbatim>\<open>nextIter\<close>, which is declared in the header and defined elsewhere: paths are
  ``component-separator-delimited byte strings; both \<^verbatim>\<open>/\<close> and \<^verbatim>\<open>\\<close> are valid
  separators'' and ``empty components are elided''.
\<close>

definition is_separator :: "char \<Rightarrow> bool" where
  "is_separator c = (c = CHR ''/'' \<or> c = CHR 0x5C)"

fun split_path :: "string \<Rightarrow> string \<Rightarrow> string list" where
  "split_path cur [] = (if cur = [] then [] else [cur])"
| "split_path cur (c # cs) =
     (if is_separator c then (if cur = [] then split_path [] cs else cur # split_path [] cs)
      else split_path (cur @ [c]) cs)"

definition path_components :: "string \<Rightarrow> string list" where
  "path_components p = split_path [] p"

text \<open>
  Modelled from the spec: \<^verbatim>\<open>operator/\<close> of \<^verbatim>\<open>boost::filesystem::path\<close>, which joins
  ``by the platform separator'': the separator is put between the two parts unless one
  is already there.
\<close>

definition path_append :: "string \<Rightarrow> string \<Rightarrow> string" where
  "path_append p q =
     (if q = [] then p
      else if p = [] \<or> is_separator (last p) \<or> is_separator (hd q) then p @ q
      else p @ [CHR 0x5C] @ q)"

text \<open>
  \<^verbatim>\<open>path()\<close> follows the parent pointers; it takes the number of nodes it may visit and
  is \<open>None\<close> when the chain of parents is longer (a chain that comes back to a node never
  ends). \<open>m_Parent\<close> is a weak pointer, and the address is what \<^verbatim>\<open>lock()\<close> returns as long
  as the parent has not been destroyed; the destruction of nodes (by \<^verbatim>\<open>erase\<close>,
  \<^verbatim>\<open>clear\<close> or an insertion that replaces a node) is not modelled, so \<open>path\<close> stands for
  \<^verbatim>\<open>path()\<close> in arenas where no node has been taken out of a map.
\<close>

fun path :: "nat \<Rightarrow> 'd SharedMemoryT \<Rightarrow> addr \<Rightarrow> string option" where
  "path 0 shm a = None"
| "path (Suc fuel) shm a =
     (case m_Parent (node_at shm a) of
        None \<Rightarrow>
          (if m_Name (node_at shm a) = [] then Some []
           else Some (path_append (m_Name (node_at shm a)) [CHR 0x5C]))
      | Some p \<Rightarrow>
          (case path fuel shm p of
             None \<Rightarrow> None
           | Some pp \<Rightarrow> Some (path_append pp (m_Name (node_at shm a)))))"

text \<open>
  \<^verbatim>\<open>findNode(name, iter)\<close>, on the components from \<^verbatim>\<open>iter\<close> on. With no component left
  the source would read past the end of the path; the model finds nothing.
\<close>

fun findNode_iter :: "'d SharedMemoryT \<Rightarrow> addr \<Rightarrow> string list \<Rightarrow> addr option" where
  "findNode_iter shm a [] = None"
| "findNode_iter shm a [c] = map_find (m_Nodes (node_at shm a)) (c_str c)"
| "findNode_iter shm a (c # cs) =
     (case map_find (m_Nodes (node_at shm a)) (c_str c) of
        Some sub \<Rightarrow> findNode_iter shm sub cs
      | None \<Rightarrow> None)"

definition findNode :: "'d SharedMemoryT \<Rightarrow> addr \<Rightarrow> string \<Rightarrow> addr option" where
  "findNode shm a p = findNode_iter shm a (path_components p)"

text \<open>
  \<^verbatim>\<open>find(pattern)\<close> and \<^verbatim>\<open>findLocal\<close>. The glob matcher
  \<^verbatim>\<open>wildcard::PartialMatch\<close> is not part of the repository and is a parameter \<open>pm\<close>
  here: \<open>pm name pattern\<close> is \<open>None\<close> for the null pointer and otherwise the rest of the
  pattern that the name has not used up. \<open>None\<close> stands for \<^verbatim>\<open>std::string::npos\<close> in the
  two searches. \<open>findLocal\<close> takes the depth it may recurse to, as \<open>numNodesRecursive\<close> does.
\<close>

definition find_first_of :: "string \<Rightarrow> string \<Rightarrow> nat option" where
  "find_first_of s chars =
     (if list_ex (\<lambda>c. c \<in> set chars) s
      then Some (length (takeWhile (\<lambda>c. c \<notin> set chars) s)) else None)"

definition find_last_of :: "string \<Rightarrow> string \<Rightarrow> nat \<Rightarrow> nat option" where
  "find_last_of s chars pos =
     (if list_ex (\<lambda>c. c \<in> set chars) (take (Suc pos) s)
      then Some (length (take (Suc pos) s)
                 - Suc (length (takeWhile (\<lambda>c. c \<notin> set chars) (rev (take (Suc pos) s)))))
      else None)"

fun findLocal :: "(string \<Rightarrow> string \<Rightarrow> string option) \<Rightarrow> nat \<Rightarrow> 'd SharedMemoryT \<Rightarrow> addr
                  \<Rightarrow> addr list \<Rightarrow> string \<Rightarrow> addr list option"
  and findLocal_loop :: "(string \<Rightarrow> string \<Rightarrow> string option) \<Rightarrow> nat \<Rightarrow> 'd SharedMemoryT \<Rightarrow> NodeMapT
                  \<Rightarrow> addr list \<Rightarrow> string \<Rightarrow> addr list option" where
  "findLocal pm 0 shm a output pattern = None"
| "findLocal pm (Suc fuel) shm a output pattern =
     findLocal_loop pm fuel shm (m_Nodes (node_at shm a)) output pattern"
| "findLocal_loop pm fuel shm [] output pattern = Some output"
| "findLocal_loop pm fuel shm ((k, c) # kvs) output pattern =
     (if length pattern > 1 \<and> pattern ! 0 = CHR ''*''
         \<and> (pattern ! 1 = CHR ''/'' \<or> pattern ! 1 = CHR 0x5C)
         \<and> isDirectory (node_at shm c)
      then (case findLocal pm fuel shm c output (drop 1 pattern) of
              None \<Rightarrow> None
            | Some out \<Rightarrow> findLocal_loop pm fuel shm kvs out pattern)
      else (case pm (c_str (m_Name (node_at shm c))) (c_str pattern) of
              None \<Rightarrow> findLocal_loop pm fuel shm kvs output pattern
            | Some remainder \<Rightarrow>
                (let out1 = (if remainder = [] \<or> remainder = ''*'' then output @ [c] else output)
                 in if isDirectory (node_at shm c)
                    then (case findLocal pm fuel shm c out1 remainder of
                            None \<Rightarrow> None
                          | Some out2 \<Rightarrow> findLocal_loop pm fuel shm kvs out2 pattern)
                    else findLocal_loop pm fuel shm kvs out1 pattern)))"

definition find_pattern :: "(string \<Rightarrow> string \<Rightarrow> string option) \<Rightarrow> nat \<Rightarrow> 'd SharedMemoryT \<Rightarrow> addr
                  \<Rightarrow> string \<Rightarrow> addr list option" where
  "find_pattern pm fuel shm a pattern =
     (let fixedPart0 = find_first_of pattern ''*?'';
          fixedPart1 = (if fixedPart0 = Some 0 then None else fixedPart0);
          fixedPart = (case fixedPart1 of None \<Rightarrow> None
                       | Some i \<Rightarrow> find_last_of pattern [CHR 0x5C, CHR ''/''] i)
      in case fixedPart of
           Some i \<Rightarrow>
             (case findNode shm a (take i pattern) of
                Some n \<Rightarrow> findLocal pm fuel shm n [] (drop (i + 1) pattern)
              | None \<Rightarrow> Some [])
         | None \<Rightarrow> findLocal pm fuel shm a [] pattern)"

section \<open>The tree container\<close>

subsection \<open>Arena names\<close>

text \<open>
  The constructor and \<^verbatim>\<open>followupName\<close> match the arena name against the regular
  expression \<^verbatim>\<open>(.*_)(\d+)\<close> with \<^verbatim>\<open>regex_match\<close>, which matches the whole name. The dot
  of an ECMAScript expression matches every character but a line terminator. \<open>regex_split\<close>
  tries the places where the first group can end, from the longest first group down, as
  the greedy star does; its result is the pair of the two groups.
\<close>

definition is_digit :: "char \<Rightarrow> bool" where
  "is_digit c = (48 \<le> (of_char c :: nat) \<and> (of_char c :: nat) \<le> 57)"

definition regex_dot :: "char \<Rightarrow> bool" where
  "regex_dot c = (c \<noteq> CHR 0x0A \<and> c \<noteq> CHR 0x0D)"

fun regex_split :: "nat \<Rightarrow> string \<Rightarrow> (string \<times> string) option" where
  "regex_split 0 s = None"
| "regex_split (Suc i) s =
     (if list_all regex_dot (take i s) \<and> s ! i = CHR ''_''
         \<and> drop (Suc i) s \<noteq> [] \<and> list_all is_digit (drop (Suc i) s)
      then Some (take (Suc i) s, drop (Suc i) s)
      else regex_split i s)"

definition shm_regex_match :: "string \<Rightarrow> (string \<times> string) option" where
  "shm_regex_match s = regex_split (length s) s"

text \<open>
  \<^verbatim>\<open>boost::lexical_cast<int>\<close> on the digits of the second group: the number they
  denote, or \<^verbatim>\<open>bad_lexical_cast\<close> when it does not fit an \<^verbatim>\<open>int\<close>.
\<close>

definition digits_value :: "string \<Rightarrow> nat" where
  "digits_value ds = foldl (\<lambda>acc c. 10 * acc + (of_char c - 48)) 0 ds"

definition lexical_cast_int :: "string \<Rightarrow> tree_error + int" where
  "lexical_cast_int ds =
     (if ds = [] \<or> \<not> list_all is_digit ds then Inl BadLexicalCast
      else if digits_value ds > 2147483647 then Inl BadLexicalCast
      else Inr (int (digits_value ds)))"

text \<open>\<^verbatim>\<open>std::to_string(int)\<close>.\<close>

definition digit_char :: "nat \<Rightarrow> char" where
  "digit_char d = ''0123456789'' ! d"

function digits_of :: "nat \<Rightarrow> string" where
  "digits_of n = (if n < 10 then [digit_char n] else digits_of (n div 10) @ [digit_char (n mod 10)])"
  by pat_completeness auto
termination
  by (relation "measure (\<lambda>n. n)") auto

declare digits_of.simps [simp del]

definition to_string :: "int \<Rightarrow> string" where
  "to_string i = (if i < 0 then CHR ''-'' # digits_of (nat (- i)) else digits_of (nat i))"

text \<open>\<^verbatim>\<open>count + 1\<close> on a 32-bit \<^verbatim>\<open>int\<close>, wrapping around.\<close>

definition int_succ :: "int \<Rightarrow> int" where
  "int_succ c = sint (word_of_int (c + 1) :: 32 word)"

text \<open>
  \<^verbatim>\<open>followupName()\<close> on the name \<open>m_SHMName\<close>: the expression is matched against
  \<^verbatim>\<open>m_SHMName.c_str()\<close>.
\<close>

definition followupName :: "string \<Rightarrow> tree_error + string" where
  "followupName SHMName =
     (case shm_regex_match (c_str SHMName) of
        None \<Rightarrow> Inl (UsageError ''shared memory name invalid'')
      | Some (m1, m2) \<Rightarrow>
          (case lexical_cast_int m2 of
             Inl e \<Rightarrow> Inl e
           | Inr count \<Rightarrow> Inr (m1 @ to_string (int_succ count))))"

text \<open>
  The name the constructor attaches under. It matches the expression against
  \<^verbatim>\<open>m_SHMName.c_str()\<close>, appends \<^verbatim>\<open>_1\<close> to \<open>m_SHMName\<close> itself when there is no match,
  and opens \<^verbatim>\<open>m_SHMName.c_str()\<close>, which \<^verbatim>\<open>activateSHM\<close> stores back as the name.
\<close>

definition TreeContainer_name :: "string \<Rightarrow> string" where
  "TreeContainer_name SHMName =
     c_str (if shm_regex_match (c_str SHMName) = None then SHMName @ ''_1'' else SHMName)"


subsection \<open>Insertion\<close>

definition createSubNode :: "'d SharedMemoryT \<Rightarrow> string \<Rightarrow> 32 word \<Rightarrow> 'd \<Rightarrow> tree_error + (addr \<times> 'd SharedMemoryT)" where
  "createSubNode shm name flags data = construct_node shm (DirectoryTree_ctor name flags None data)"

text \<open>
  \<^verbatim>\<open>addNode\<close> works on the nodes in place; when an allocation throws, what it has done
  so far stays done, so the result is the arena together with either the exception or the
  returned pointer. \<open>root\<close> is \<^verbatim>\<open>this->get()\<close>, \<open>createEmpty\<close> the empty payload of
  \<^verbatim>\<open>createEmpty()\<close>, and the list holds the components from \<^verbatim>\<open>iter\<close> on. With no
  component the source would read past the end of the path.
\<close>

fun addNode :: "'d \<Rightarrow> 'd SharedMemoryT \<Rightarrow> addr \<Rightarrow> addr \<Rightarrow> string list \<Rightarrow> 'd \<Rightarrow> bool \<Rightarrow> 32 word
                \<Rightarrow> (tree_error + addr option) \<times> 'd SharedMemoryT" where
  "addNode createEmpty shm root base [] data overwrite flags = (Inl EmptyPath, shm)"
| "addNode createEmpty shm root base [c] data overwrite flags =
     (case (case node (node_at shm root) c of
              Some n \<Rightarrow> Inr (n, shm)
            | None \<Rightarrow> createSubNode shm c flags data) of
        Inl e \<Rightarrow> (Inl e, shm)
      | Inr (newNode, shm1) \<Rightarrow>
          (let shm2 = node_upd newNode (\<lambda>n. n \<lparr> m_Self := Some newNode \<rparr>) shm1;
               shm3 = node_upd newNode (\<lambda>n. n \<lparr> m_Parent := m_Self (node_at shm2 base) \<rparr>) shm2
           in if overwrite
              then (Inr (Some newNode),
                    node_upd base (\<lambda>n. n \<lparr> m_Nodes := map_assign (m_Nodes n) (c_str c) newNode \<rparr>) shm3)
              else (case map_insert (m_Nodes (node_at shm3 base)) (c_str c) newNode of
                      (m', r, inserted) \<Rightarrow>
                        (Inr (if inserted then Some newNode else None),
                         node_upd base (\<lambda>n. n \<lparr> m_Nodes := m' \<rparr>) shm3))))"
| "addNode createEmpty shm root base (c # cs) data overwrite flags =
     (case map_find (m_Nodes (node_at shm base)) (c_str c) of
        Some subNode \<Rightarrow> addNode createEmpty shm root subNode cs data overwrite flags
      | None \<Rightarrow>
          (case createSubNode shm c (ucast (FLAG_DIRECTORY OR FLAG_DUMMY)) createEmpty of
             Inl e \<Rightarrow> (Inl e, shm)
           | Inr (newNode, shm1) \<Rightarrow>
               (let shm2 = node_upd base
                      (\<lambda>n. n \<lparr> m_Nodes := fst (map_insert (m_Nodes n) (c_str c) newNode) \<rparr>) shm1;
                    shm3 = node_upd newNode (\<lambda>n. n \<lparr> m_Self := Some newNode \<rparr>) shm2;
                    shm4 = node_upd newNode (\<lambda>n. n \<lparr> m_Parent := m_Self (node_at shm3 base) \<rparr>) shm3
                in addNode createEmpty shm4 root newNode cs data overwrite flags)))"

subsection \<open>Migration\<close>

text \<open>
  \<^verbatim>\<open>copyTree(destination, reference)\<close> reads the nodes of the old arena \<open>src\<close> and builds
  their copies in the new arena \<open>dst\<close>. It recurses into every child and takes the depth
  it may recurse to.
\<close>

fun copyTree :: "nat \<Rightarrow> 'd \<Rightarrow> 'd SharedMemoryT \<Rightarrow> 'd SharedMemoryT \<Rightarrow> addr \<Rightarrow> addr
                 \<Rightarrow> (tree_error + 'd SharedMemoryT) option"
  and copyTree_loop :: "nat \<Rightarrow> 'd \<Rightarrow> 'd SharedMemoryT \<Rightarrow> 'd SharedMemoryT \<Rightarrow> addr \<Rightarrow> NodeMapT
                 \<Rightarrow> (tree_error + 'd SharedMemoryT) option" where
  "copyTree 0 createEmpty src dst destination reference = None"
| "copyTree (Suc fuel) createEmpty src dst destination reference =
     copyTree_loop fuel createEmpty src
       (node_upd destination
          (\<lambda>n. n \<lparr> m_Flags := m_Flags (node_at src reference),
                   m_Data := m_Data (node_at src reference),
                   m_Name := c_str (m_Name (node_at src reference)) \<rparr>) dst)
       destination (m_Nodes (node_at src reference))"
| "copyTree_loop fuel createEmpty src dst destination [] = Some (Inr dst)"
| "copyTree_loop fuel createEmpty src dst destination ((k, source) # kvs) =
     (case createSubNode dst [] 1 createEmpty of
        Inl e \<Rightarrow> Some (Inl e)
      | Inr (newNode, dst1) \<Rightarrow>
          (case copyTree fuel createEmpty src
                  (node_upd newNode (\<lambda>n. n \<lparr> m_Self := Some newNode \<rparr>) dst1) newNode source of
             None \<Rightarrow> None
           | Some (Inl e) \<Rightarrow> Some (Inl e)
           | Some (Inr dst2) \<Rightarrow>
               (let dst3 = node_upd destination
                      (\<lambda>n. n \<lparr> m_Nodes := map_assign (m_Nodes n) (m_Name (node_at dst2 newNode)) newNode \<rparr>) dst2;
                    dst4 = node_upd newNode (\<lambda>n. n \<lparr> m_Parent := m_Self (node_at dst3 destination) \<rparr>) dst3
                in copyTree_loop fuel createEmpty src dst4 destination kvs)))"

subsection \<open>The container and its arenas\<close>

text \<open>
  \<^verbatim>\<open>struct TreeMeta\<close> is built with the root of the tree: a node with the empty name
  and the flags \<^verbatim>\<open>true\<close>, whose \<^verbatim>\<open>m_Self\<close> nothing ever sets.
\<close>

definition TreeMeta_ctor :: "'d \<Rightarrow> 'd SharedMemoryT \<Rightarrow> tree_error + ('d SharedMemoryT \<times> TreeMeta)" where
  "TreeMeta_ctor data shm =
     (case construct_node shm (DirectoryTree_ctor [] 1 None data) of
        Inl e \<Rightarrow> Inl e
      | Inr (a, shm1) \<Rightarrow>
          (let meta = \<lparr> tree = a, referenceCount = 0, outdated = False \<rparr>
           in Inr (shm1 \<lparr> shm_meta := Some meta \<rparr>, meta)))"

text \<open>
  \<^verbatim>\<open>class TreeContainer\<close>, for one process. \<open>m_SHM\<close> is the arena the container has
  mapped and \<open>m_TreeMeta\<close> the Meta object of that arena, which the container reads and
  writes through its pointer; \<open>shared_memory\<close> are the other arenas that exist, by name.
  An arena that the container leaves is put back there with its Meta object, unless the
  container was its last user.
\<close>

record 'd TreeContainer =
  m_SHMName :: string
  m_SHM :: "'d SharedMemoryT"
  m_TreeMeta :: TreeMeta
  shared_memory :: "string \<Rightarrow> 'd SharedMemoryT option"

text \<open>
  \<^verbatim>\<open>activateSHM(shm, SHMName)\<close>. \<open>old\<close> is what the container was attached to before
  (name, arena, Meta), \<open>None\<close> in the constructor. An exception leaves the container between
  two arenas; the model keeps the exception only.
\<close>

definition activateSHM :: "nat \<Rightarrow> 'd \<Rightarrow> (string \<Rightarrow> 'd SharedMemoryT option)
      \<Rightarrow> (string \<times> 'd SharedMemoryT \<times> TreeMeta) option \<Rightarrow> 'd SharedMemoryT \<Rightarrow> string
      \<Rightarrow> (tree_error + 'd TreeContainer) option" where
  "activateSHM fuel createEmpty world old shm SHMName =
     (case (case shm_meta shm of
              Some meta \<Rightarrow> Some (Inr (shm, meta))
            | None \<Rightarrow>
                (case TreeMeta_ctor createEmpty shm of
                   Inl e \<Rightarrow> Some (Inl e)
                 | Inr (shm1, meta) \<Rightarrow>
                     (case old of
                        None \<Rightarrow> Some (Inr (shm1, meta))
                      | Some (oldName, oldSHM, oldMeta) \<Rightarrow>
                          (case copyTree fuel createEmpty oldSHM shm1 (tree meta) (tree oldMeta) of
                             None \<Rightarrow> None
                           | Some (Inl e) \<Rightarrow> Some (Inl e)
                           | Some (Inr shm2) \<Rightarrow> Some (Inr (shm2, meta)))))) of
        None \<Rightarrow> None
      | Some (Inl e) \<Rightarrow> Some (Inl e)
      | Some (Inr (shm', meta)) \<Rightarrow>
          (let meta' = meta \<lparr> referenceCount := referenceCount meta + 1 \<rparr>;
               world' =
                 (case old of
                    None \<Rightarrow> world
                  | Some (oldName, oldSHM, oldMeta) \<Rightarrow>
                      (let oldMeta' = oldMeta \<lparr> referenceCount := referenceCount oldMeta - 1 \<rparr>
                       in if referenceCount oldMeta' = 0 then world (oldName := None)
                          else world (oldName := Some (oldSHM \<lparr> shm_meta := Some oldMeta' \<rparr>))))
           in Some (Inr \<lparr> m_SHMName = SHMName, m_SHM = shm' \<lparr> shm_meta := Some meta' \<rparr>,
                          m_TreeMeta = meta',
                          shared_memory = world' (SHMName := None) \<rparr>)))"

text \<open>
  The first half of \<^verbatim>\<open>createOrOpen\<close>: the arena of that name if there is one, and
  otherwise a new arena, created with \<^verbatim>\<open>static_cast<unsigned int>(size)\<close>.
\<close>

definition open_or_create :: "(string \<Rightarrow> 'd SharedMemoryT option) \<Rightarrow> string \<Rightarrow> nat \<Rightarrow> 'd SharedMemoryT" where
  "open_or_create world SHMName sz =
     (case world SHMName of
        Some shm \<Rightarrow> shm
      | None \<Rightarrow> \<lparr> get_size = sz mod 4294967296, shm_nodes = [], shm_meta = None \<rparr>)"

definition createOrOpen :: "nat \<Rightarrow> 'd \<Rightarrow> 'd TreeContainer \<Rightarrow> string \<Rightarrow> nat
      \<Rightarrow> (tree_error + 'd TreeContainer) option" where
  "createOrOpen fuel createEmpty c SHMName sz =
     activateSHM fuel createEmpty (shared_memory c) (Some (m_SHMName c, m_SHM c, m_TreeMeta c))
       (open_or_create (shared_memory c) SHMName sz) SHMName"

definition TreeContainer_ctor :: "'d \<Rightarrow> (string \<Rightarrow> 'd SharedMemoryT option) \<Rightarrow> string \<Rightarrow> nat
      \<Rightarrow> (tree_error + 'd TreeContainer) option" where
  "TreeContainer_ctor createEmpty world SHMName sz =
     activateSHM 0 createEmpty world None
       (open_or_create world (TreeContainer_name SHMName) sz) (TreeContainer_name SHMName)"

text \<open>
  \<^verbatim>\<open>reassign()\<close>: mark the arena outdated, then move from successor to successor until
  one is not outdated. The loop has no bound in the source; here it takes the number of
  rounds it may make.
\<close>

fun reassign_loop :: "nat \<Rightarrow> 'd \<Rightarrow> 'd TreeContainer \<Rightarrow> (tree_error + 'd TreeContainer) option" where
  "reassign_loop 0 createEmpty c = None"
| "reassign_loop (Suc fuel) createEmpty c =
     (case followupName (m_SHMName c) of
        Inl e \<Rightarrow> Some (Inl e)
      | Inr nextName \<Rightarrow>
          (case createOrOpen fuel createEmpty c nextName (get_size (m_SHM c) * 2) of
             None \<Rightarrow> None
           | Some (Inl e) \<Rightarrow> Some (Inl e)
           | Some (Inr c') \<Rightarrow>
               if \<not> outdated (m_TreeMeta c') then Some (Inr c')
               else reassign_loop fuel createEmpty c'))"

definition reassign :: "nat \<Rightarrow> 'd \<Rightarrow> 'd TreeContainer \<Rightarrow> (tree_error + 'd TreeContainer) option" where
  "reassign fuel createEmpty c =
     reassign_loop fuel createEmpty (c \<lparr> m_TreeMeta := (m_TreeMeta c) \<lparr> outdated := True \<rparr> \<rparr>)"

text \<open>
  \<^verbatim>\<open>addFile\<close> and \<^verbatim>\<open>addDirectory\<close>: \<^verbatim>\<open>addNode\<close> from the root, and on
  \<^verbatim>\<open>bi::bad_alloc\<close> a move to the next arena and a new attempt, as often as it takes; the
  functions take the number of attempts they may make. \<^verbatim>\<open>this->get()\<close> inside \<^verbatim>\<open>addNode\<close>
  is the root of the attached arena as long as that arena is not outdated. When it is
  (another process has moved the tree on), the source goes on with nodes of two arenas;
  that continuation is not modelled and the result is \<open>ArenaOutdated\<close>.
\<close>

fun addFile_flags :: "nat \<Rightarrow> 'd \<Rightarrow> 'd TreeContainer \<Rightarrow> string \<Rightarrow> 'd \<Rightarrow> 32 word \<Rightarrow> bool
      \<Rightarrow> (tree_error + (addr option \<times> 'd TreeContainer)) option" where
  "addFile_flags 0 createEmpty c name data flags overwrite = None"
| "addFile_flags (Suc fuel) createEmpty c name data flags overwrite =
     (if outdated (m_TreeMeta c) then Some (Inl ArenaOutdated)
      else
        (case addNode createEmpty (m_SHM c) (tree (m_TreeMeta c)) (tree (m_TreeMeta c))
                (path_components name) data overwrite flags of
           (Inr r, shm') \<Rightarrow> Some (Inr (r, c \<lparr> m_SHM := shm' \<rparr>))
         | (Inl BadAlloc, shm') \<Rightarrow>
             (case reassign fuel createEmpty (c \<lparr> m_SHM := shm' \<rparr>) of
                None \<Rightarrow> None
              | Some (Inl e) \<Rightarrow> Some (Inl e)
              | Some (Inr c') \<Rightarrow> addFile_flags fuel createEmpty c' name data flags overwrite)
         | (Inl e, shm') \<Rightarrow> Some (Inl e)))"

definition addFile :: "nat \<Rightarrow> 'd \<Rightarrow> 'd TreeContainer \<Rightarrow> string \<Rightarrow> 'd \<Rightarrow> TreeFlags \<Rightarrow> bool
      \<Rightarrow> (tree_error + (addr option \<times> 'd TreeContainer)) option" where
  "addFile fuel createEmpty c name data flags overwrite =
     addFile_flags fuel createEmpty c name data (ucast flags) overwrite"

definition addDirectory :: "nat \<Rightarrow> 'd \<Rightarrow> 'd TreeContainer \<Rightarrow> string \<Rightarrow> 'd \<Rightarrow> TreeFlags \<Rightarrow> bool
      \<Rightarrow> (tree_error + (addr option \<times> 'd TreeContainer)) option" where
  "addDirectory fuel createEmpty c name data flags overwrite =
     addFile_flags fuel createEmpty c name data (ucast (flags OR FLAG_DIRECTORY)) overwrite"

definition container_clear :: "'d TreeContainer \<Rightarrow> 'd TreeContainer" where
  "container_clear c = c \<lparr> m_SHM := node_upd (tree (m_TreeMeta c)) clear (m_SHM c) \<rparr>"

subsection \<open>Sequences of operations\<close>

text \<open>
  What a user of the container does to the tree: \<^verbatim>\<open>addFile\<close>, \<^verbatim>\<open>addDirectory\<close>,
  \<^verbatim>\<open>clear\<close>, and \<^verbatim>\<open>erase\<close> of the entry of a key in the child map of a node. \<open>build\<close>
  attaches a container where no arena exists yet and runs a list of operations.
\<close>

datatype 'd tree_op =
    AddFile string 'd TreeFlags bool
  | AddDirectory string 'd TreeFlags bool
  | Clear
  | Erase addr string

fun apply_op :: "nat \<Rightarrow> 'd \<Rightarrow> 'd TreeContainer \<Rightarrow> 'd tree_op \<Rightarrow> (tree_error + 'd TreeContainer) option" where
  "apply_op fuel createEmpty c (AddFile name data flags overwrite) =
     (case addFile fuel createEmpty c name data flags overwrite of
        None \<Rightarrow> None
      | Some (Inl e) \<Rightarrow> Some (Inl e)
      | Some (Inr (r, c')) \<Rightarrow> Some (Inr c'))"
| "apply_op fuel createEmpty c (AddDirectory name data flags overwrite) =
     (case addDirectory fuel createEmpty c name data flags overwrite of
        None \<Rightarrow> None
      | Some (Inl e) \<Rightarrow> Some (Inl e)
      | Some (Inr (r, c')) \<Rightarrow> Some (Inr c'))"
| "apply_op fuel createEmpty c Clear = Some (Inr (container_clear c))"
| "apply_op fuel createEmpty c (Erase a k) =
     Some (Inr (c \<lparr> m_SHM := node_upd a (erase k) (m_SHM c) \<rparr>))"

fun apply_ops :: "nat \<Rightarrow> 'd \<Rightarrow> 'd TreeContainer \<Rightarrow> 'd tree_op list \<Rightarrow> (tree_error + 'd TreeContainer) option" where
  "apply_ops fuel createEmpty c [] = Some (Inr c)"
| "apply_ops fuel createEmpty c (x # xs) =
     (case apply_op fuel createEmpty c x of
        None \<Rightarrow> None
      | Some (Inl e) \<Rightarrow> Some (Inl e)
      | Some (Inr c') \<Rightarrow> apply_ops fuel createEmpty c' xs)"

definition build :: "nat \<Rightarrow> 'd \<Rightarrow> string \<Rightarrow> nat \<Rightarrow> 'd tree_op list \<Rightarrow> (tree_error + 'd TreeContainer) option" where
  "build fuel createEmpty SHMName sz ops =
     (case TreeContainer_ctor createEmpty (\<lambda>_. None) SHMName sz of
        None \<Rightarrow> None
      | Some (Inl e) \<Rightarrow> Some (Inl e)
      | Some (Inr c) \<Rightarrow> apply_ops fuel createEmpty c ops)"

section \<open>The hook manager singleton (src/usvfs/hookmanager.cpp)\<close>

text \<open>
  \<^verbatim>\<open>HookManager *HookManager::s_Instance = nullptr;\<close> is the only global of the file.
  A process is modelled by the value of that pointer together with the set of
  HookManager objects that have been constructed and not yet destroyed. Objects are
  named by their address.
\<close>

type_synonym hm_ptr = nat

datatype hm_error = RuntimeError string

record hm_process =
  s_Instance :: "hm_ptr option"
  hm_live :: "hm_ptr set"

definition hm_initial :: hm_process where
  "hm_initial = \<lparr> s_Instance = None, hm_live = {} \<rparr>"

text \<open>
  The constructor: the member \<^verbatim>\<open>m_Context\<close> is built first; then the guard throws, and a
  constructor that throws leaves no object behind. Otherwise the object registers itself
  and goes on to install the hooks (not part of this model).
\<close>

definition HookManager_ctor :: "hm_ptr \<Rightarrow> hm_process \<Rightarrow> (hm_error + unit) \<times> hm_process" where
  "HookManager_ctor this st =
     (if s_Instance st \<noteq> None
      then (Inl (RuntimeError ''singleton duplicate instantiation (HookManager)''), st)
      else (Inr (), st \<lparr> s_Instance := Some this, hm_live := insert this (hm_live st) \<rparr>))"

text \<open>
  The destructor removes the hooks and unregisters the process; it does not touch
  \<^verbatim>\<open>s_Instance\<close>.
\<close>

definition HookManager_dtor :: "hm_ptr \<Rightarrow> hm_process \<Rightarrow> hm_process" where
  "HookManager_dtor this st = st \<lparr> hm_live := hm_live st - {this} \<rparr>"

definition HookManager_instance :: "hm_process \<Rightarrow> hm_error + hm_ptr" where
  "HookManager_instance st =
     (case s_Instance st of
        None \<Rightarrow> Inl (RuntimeError ''singleton not instantiated'')
      | Some p \<Rightarrow> Inr p)"

text \<open>What a process can do with hook managers: try to construct one, or destroy one.\<close>

datatype hm_event = Construct hm_ptr | Destroy hm_ptr

fun hm_step :: "hm_process \<Rightarrow> hm_event \<Rightarrow> hm_process" where
  "hm_step st (Construct p) = snd (HookManager_ctor p st)"
| "hm_step st (Destroy p) = HookManager_dtor p st"

definition hm_run :: "hm_event list \<Rightarrow> hm_process" where
  "hm_run evs = foldl hm_step hm_initial evs"

section \<open>Well-formed arenas\<close>

text \<open>
  What the container keeps true of every arena it works on: the child map of every node
  is sorted by the key order, every pointer in a child map is the address of a node of
  the arena, and the flags of every node satisfy a given property \<open>F\<close>. An arena that
  takes part in a migration also has its root inside.
\<close>

definition sorted_map :: "NodeMapT \<Rightarrow> bool" where
  "sorted_map m = sorted_wrt CILess (map fst m)"

definition wf_node :: "(TreeFlags \<Rightarrow> bool) \<Rightarrow> nat \<Rightarrow> 'd DirectoryTree \<Rightarrow> bool" where
  "wf_node F len n =
     (sorted_map (m_Nodes n) \<and> F (m_Flags n) \<and> list_all (\<lambda>(k, a). a < len) (m_Nodes n))"

definition wf_arena :: "(TreeFlags \<Rightarrow> bool) \<Rightarrow> 'd SharedMemoryT \<Rightarrow> bool" where
  "wf_arena F shm = list_all (wf_node F (length (shm_nodes shm))) (shm_nodes shm)"

definition wf_named_arena :: "(TreeFlags \<Rightarrow> bool) \<Rightarrow> 'd SharedMemoryT \<Rightarrow> bool" where
  "wf_named_arena F shm =
     (wf_arena F shm \<and>
      (case shm_meta shm of None \<Rightarrow> True | Some meta \<Rightarrow> tree meta < length (shm_nodes shm)))"

definition wf_container :: "(TreeFlags \<Rightarrow> bool) \<Rightarrow> 'd TreeContainer \<Rightarrow> bool" where
  "wf_container F c =
     (wf_arena F (m_SHM c) \<and> tree (m_TreeMeta c) < length (shm_nodes (m_SHM c))
      \<and> (\<forall>name shm. shared_memory c name = Some shm \<longrightarrow> wf_named_arena F shm))"

text \<open>
  The spec's words for the invariant of the flags: ``the DUMMY flag implies DIRECTORY''.
  \<open>op_flags\<close> says that the flags an operation creates its node with satisfy \<open>F\<close>.
\<close>

definition dummy_implies_directory :: "TreeFlags \<Rightarrow> bool" where
  "dummy_implies_directory f = (f AND FLAG_DUMMY \<noteq> 0 \<longrightarrow> f AND FLAG_DIRECTORY \<noteq> 0)"

fun op_flags :: "(TreeFlags \<Rightarrow> bool) \<Rightarrow> 'd tree_op \<Rightarrow> bool" where
  "op_flags F (AddFile name data flags overwrite) = F flags"
| "op_flags F (AddDirectory name data flags overwrite) = F (flags OR FLAG_DIRECTORY)"
| "op_flags F Clear = True"
| "op_flags F (Erase a k) = True"

text \<open>
  The operations that do not themselves ask for a node with DUMMY and without DIRECTORY:
  only \<^verbatim>\<open>addFile\<close> can, through its flags (\<^verbatim>\<open>addDirectory\<close> adds DIRECTORY to them).
\<close>

fun asks_no_dummy_file :: "'d tree_op \<Rightarrow> bool" where
  "asks_no_dummy_file (AddFile name data flags overwrite) = dummy_implies_directory flags"
| "asks_no_dummy_file (AddDirectory name data flags overwrite) = True"
| "asks_no_dummy_file Clear = True"
| "asks_no_dummy_file (Erase a k) = True"



text \<open>
  When \<^verbatim>\<open>findLocal\<close> puts a node into its output: the matcher has matched the name of the
  node and has left nothing of the pattern, or a star.
\<close>

definition full_match :: "(string \<Rightarrow> string \<Rightarrow> string option) \<Rightarrow> string \<Rightarrow> string \<Rightarrow> bool" where
  "full_match pm name pattern =
     (case pm (c_str name) (c_str pattern) of
        None \<Rightarrow> False
      | Some remainder \<Rightarrow> remainder = [] \<or> remainder = ''*'')"

text \<open>
  The spec's words for a star and a separator at the head of a pattern: it ``matches any
  single directory level (not multi-level)''. \<open>one_level\<close> is what a search with such a
  pattern finds below a node, child by child in the order of the map: for a child that is
  a directory, what the search of that child with the pattern after the star finds; for
  any other child, the child itself if the matcher matches its name against the pattern.
\<close>

definition one_level :: "(string \<Rightarrow> string \<Rightarrow> string option) \<Rightarrow> nat \<Rightarrow> 'd SharedMemoryT \<Rightarrow> addr
      \<Rightarrow> string \<Rightarrow> addr list option" where
  "one_level pm fuel shm a pattern =
     map_option concat (those (map
        (\<lambda>(k, c). if isDirectory (node_at shm c)
                  then findLocal pm fuel shm c [] (drop 1 pattern)
                  else Some (if full_match pm (m_Name (node_at shm c)) pattern then [c] else []))
        (m_Nodes (node_at shm a))))"


text \<open>
  The spec's words for the result of a migration: the two trees are ``structurally
  equal'', with ``the same paths, the same flags, the same payload values''. \<open>same_tree\<close>
  compares the tree under \<open>r\<close> in the arena \<open>src\<close> with the tree under \<open>d\<close> in the arena
  \<open>dst\<close>, down to a given depth: the two nodes have the same name (as \<^verbatim>\<open>name()\<close> returns
  it), flags and payload, and their child maps hold, in the same order, the same keys
  under case folding, with children that are the same trees. \<open>keys_named\<close> says that
  every node is filed by its parent under its own name, whatever the case of the letters.
\<close>

definition node_name :: "'d DirectoryTree \<Rightarrow> string" where
  "node_name n = c_str (m_Name n)"

definition node_label :: "'d SharedMemoryT \<Rightarrow> addr \<Rightarrow> string \<times> TreeFlags \<times> 'd" where
  "node_label shm a = (node_name (node_at shm a), m_Flags (node_at shm a), m_Data (node_at shm a))"

fun same_tree :: "nat \<Rightarrow> 'd SharedMemoryT \<Rightarrow> 'd SharedMemoryT \<Rightarrow> addr \<Rightarrow> addr \<Rightarrow> bool"
  and same_children :: "nat \<Rightarrow> 'd SharedMemoryT \<Rightarrow> 'd SharedMemoryT \<Rightarrow> NodeMapT \<Rightarrow> NodeMapT \<Rightarrow> bool" where
  "same_tree 0 src dst r d = False"
| "same_tree (Suc fuel) src dst r d =
     (node_label src r = node_label dst d
      \<and> same_children fuel src dst (m_Nodes (node_at src r)) (m_Nodes (node_at dst d)))"
| "same_children fuel src dst [] [] = True"
| "same_children fuel src dst ((k, a) # kvs) ((k', a') # kvs') =
     (fold_key k = fold_key k' \<and> same_tree fuel src dst a a'
      \<and> same_children fuel src dst kvs kvs')"
| "same_children fuel src dst [] (kv' # kvs') = False"
| "same_children fuel src dst (kv # kvs) [] = False"

definition keys_named :: "'d SharedMemoryT \<Rightarrow> bool" where
  "keys_named shm =
     list_all (\<lambda>n. list_all (\<lambda>(k, a). fold_key k = fold_key (m_Name (node_at shm a))) (m_Nodes n))
       (shm_nodes shm)"

text \<open>
  What \<open>copyTree\<close> leaves alone and where it puts its nodes: the nodes that were in the
  arena, other than the destination, are as they were, and the nodes that have come
  point among themselves.
\<close>

definition copy_frame :: "'d SharedMemoryT \<Rightarrow> addr \<Rightarrow> 'd SharedMemoryT \<Rightarrow> bool" where
  "copy_frame dst destination dst' =
     (length (shm_nodes dst) \<le> length (shm_nodes dst')
      \<and> (\<forall>b < length (shm_nodes dst). b \<noteq> destination \<longrightarrow> node_at dst' b = node_at dst b)
      \<and> (\<forall>b. length (shm_nodes dst) \<le> b \<and> b < length (shm_nodes dst') \<longrightarrow>
            list_all (\<lambda>(k, a). length (shm_nodes dst) \<le> a \<and> a < length (shm_nodes dst'))
              (m_Nodes (node_at dst' b))))"

section \<open>Evaluation\<close>

text \<open>The definitions that the simplifier unfolds to run the model on a concrete tree.\<close>

lemmas tree_eval =
  build_def TreeContainer_ctor_def activateSHM_def open_or_create_def TreeMeta_ctor_def
  construct_node_def DirectoryTree_ctor_def TreeContainer_name_def shm_regex_match_def
  is_digit_def regex_dot_def addFile_def addDirectory_def path_components_def is_separator_def
  node_def node_at_def node_upd_def createSubNode_def c_str_def CILess_def tolower_ascii_def
  findNode_def FLAG_DIRECTORY_def FLAG_DUMMY_def container_clear_def clear_def erase_def
  numNodes_def isDirectory_def hasFlag_def Let_def


section \<open>The key order\<close>

lemma c_str_no_nul: "CHR 0x00 \<notin> set (c_str s)"
  unfolding c_str_def by (auto dest: set_takeWhileD)

lemma c_str_idem: "c_str (c_str s) = c_str s"
  unfolding c_str_def by (simp add: takeWhile_idem)


lemma tolower_ascii_nul: "tolower_ascii c = CHR 0x00 \<longleftrightarrow> c = CHR 0x00"
proof (cases "map_of (zip ''ABCDEFGHIJKLMNOPQRSTUVWXYZ'' ''abcdefghijklmnopqrstuvwxyz'') c")
  case None
  then show ?thesis by (simp add: tolower_ascii_def)
next
  case (Some l)
  then have "(c, l) \<in> set (zip ''ABCDEFGHIJKLMNOPQRSTUVWXYZ'' ''abcdefghijklmnopqrstuvwxyz'')"
    by (rule map_of_SomeD)
  then have "c \<in> set ''ABCDEFGHIJKLMNOPQRSTUVWXYZ''" and "l \<in> set ''abcdefghijklmnopqrstuvwxyz''"
    by (auto dest: set_zip_leftD set_zip_rightD)
  then have "c \<noteq> CHR 0x00" and "l \<noteq> CHR 0x00" by auto
  with Some show ?thesis by (simp add: tolower_ascii_def)
qed

text \<open>
  \<open>stricmp\<close> is negative exactly when the folded bytes of the left string come first in
  the lexicographic order of their values.
\<close>

lemma stricmp_lexord:
  "CHR 0x00 \<notin> set a \<Longrightarrow> CHR 0x00 \<notin> set b \<Longrightarrow>
   stricmp a b < 0 \<longleftrightarrow>
   (map (\<lambda>c. of_char (tolower_ascii c) :: nat) a, map (\<lambda>c. of_char (tolower_ascii c)) b)
      \<in> lexord {(x, y). x < y}"
proof (induction a b rule: stricmp.induct)
  case 1
  show ?case by simp
next
  case (2 b bs)
  then have "tolower_ascii b \<noteq> CHR 0x00" by (auto simp: tolower_ascii_nul)
  moreover have "(of_char (tolower_ascii b) :: nat) = of_char (CHR 0x00) \<longleftrightarrow>
      tolower_ascii b = CHR 0x00"
    by (rule of_char_eq_iff)
  ultimately have "(of_char (tolower_ascii b) :: nat) \<noteq> 0" by simp
  then show ?case by simp
next
  case (3 a as)
  show ?case by simp
next
  case (4 a as b bs)
  then show ?case by (auto simp: of_char_eq_iff)
qed

lemma CILess_lexord: "CILess x y \<longleftrightarrow> (fold_key x, fold_key y) \<in> lexord {(a, b). a < b}"
  unfolding CILess_def fold_key_def by (rule stricmp_lexord) (rule c_str_no_nul)+

lemma CILess_irrefl: "\<not> CILess x x"
  unfolding CILess_lexord by (rule lexord_irreflexive) simp

lemma CILess_trans: "CILess x y \<Longrightarrow> CILess y z \<Longrightarrow> CILess x z"
  unfolding CILess_lexord by (erule lexord_trans) (auto simp: trans_def)

lemma CILess_equiv: "\<not> CILess x y \<and> \<not> CILess y x \<longleftrightarrow> fold_key x = fold_key y"
proof
  assume "\<not> CILess x y \<and> \<not> CILess y x"
  moreover have "(fold_key x, fold_key y) \<in> lexord {(a, b). a < b} \<or> fold_key x = fold_key y
      \<or> (fold_key y, fold_key x) \<in> lexord {(a, b). a < b}"
    by (rule lexord_linear) auto
  ultimately show "fold_key x = fold_key y" by (auto simp: CILess_lexord)
next
  assume "fold_key x = fold_key y"
  then show "\<not> CILess x y \<and> \<not> CILess y x"
    using lexord_irreflexive [of "{(a, b). a < (b::nat)}" "fold_key y"]
    by (simp add: CILess_lexord)
qed

lemma CILess_cong:
  "fold_key x = fold_key x' \<Longrightarrow> fold_key y = fold_key y' \<Longrightarrow> CILess x y = CILess x' y'"
  by (simp add: CILess_lexord)

lemma fold_key_c_str: "fold_key (c_str k) = fold_key k"
  by (simp add: fold_key_def c_str_idem)

section \<open>The child map: order and lookup\<close>

lemma map_find_cong: "fold_key k = fold_key k' \<Longrightarrow> map_find m k = map_find m k'"
proof (induction m)
  case Nil
  show ?case by simp
next
  case (Cons kv m)
  obtain k0 v0 where kv: "kv = (k0, v0)" by (cases kv)
  from Cons.prems have "CILess k0 k = CILess k0 k'" "CILess k k0 = CILess k' k0"
    using CILess_cong [of k0 k0 k k'] CILess_cong [of k k' k0 k0] by simp_all
  with Cons show ?case by (simp add: kv)
qed

lemma map_find_mem:
  "map_find m k = Some v \<Longrightarrow> \<exists>k'. (k', v) \<in> set m \<and> fold_key k' = fold_key k"
proof (induction m)
  case Nil
  then show ?case by simp
next
  case (Cons kv m)
  obtain k0 v0 where kv: "kv = (k0, v0)" by (cases kv)
  show ?case
  proof (cases "CILess k0 k")
    case True
    with Cons kv show ?thesis by auto
  next
    case False
    with Cons.prems kv have "\<not> CILess k k0" and "v = v0" by (auto split: if_splits)
    with False have "fold_key k0 = fold_key k" using CILess_equiv [of k0 k] by blast
    with kv \<open>v = v0\<close> show ?thesis by auto
  qed
qed

lemma map_find_less_None:
  "sorted_wrt CILess (map fst m) \<Longrightarrow> \<forall>k'\<in>fst ` set m. CILess k k' \<Longrightarrow> map_find m k = None"
proof (induction m)
  case Nil
  show ?case by simp
next
  case (Cons kv m)
  obtain k0 v0 where kv: "kv = (k0, v0)" by (cases kv)
  from Cons.prems kv have "CILess k k0" by simp
  moreover then have "\<not> CILess k0 k" using CILess_trans CILess_irrefl by blast
  ultimately show ?case by (simp add: kv)
qed

lemma map_assign_set:
  "(k', x) \<in> set (map_assign m k v) \<Longrightarrow>
   (k' = k \<and> x = v) \<or> (k', x) \<in> set m \<or> (x = v \<and> k' \<in> fst ` set m)"
  by (induction m) (force split: if_splits)+

lemma map_assign_keys_cases:
  "k' \<in> fst ` set (map_assign m k v) \<Longrightarrow> k' = k \<or> k' \<in> fst ` set m"
  by (force dest: map_assign_set)

lemma map_assign_sorted: "sorted_map m \<Longrightarrow> sorted_map (map_assign m k v)"
  unfolding sorted_map_def
proof (induction m)
  case Nil
  show ?case by simp
next
  case (Cons kv m)
  obtain k0 v0 where kv: "kv = (k0, v0)" by (cases kv)
  show ?case
  proof (cases "CILess k0 k")
    case True
    have "\<forall>x\<in>fst ` set (map_assign m k v). CILess k0 x"
    proof
      fix x assume "x \<in> fst ` set (map_assign m k v)"
      then have "x = k \<or> x \<in> fst ` set m" by (rule map_assign_keys_cases)
      with True Cons.prems kv show "CILess k0 x" by auto
    qed
    with True Cons kv show ?thesis by auto
  next
    case False
    show ?thesis
    proof (cases "CILess k k0")
      case True
      with Cons.prems kv have "\<forall>x\<in>set (map fst m). CILess k x"
        by (auto intro: CILess_trans)
      with True False Cons.prems kv show ?thesis by simp
    next
      case nl: False
      with False Cons.prems kv show ?thesis by simp
    qed
  qed
qed


section \<open>Lookup along a path\<close>

lemma findNode_iter_Cons:
  "findNode_iter shm a (c # cs) =
     (case map_find (m_Nodes (node_at shm a)) (c_str c) of
        None \<Rightarrow> None
      | Some sub \<Rightarrow> if cs = [] then Some sub else findNode_iter shm sub cs)"
  by (cases cs) (simp_all split: option.splits)

section \<open>The operations keep arenas well-formed\<close>

lemma map_insert_None:
  "map_find m k = None \<Longrightarrow> map_insert m k v = (map_assign m k v, v, True)"
  by (induction m) (auto split: if_splits)

lemma map_insert_Some:
  "map_find m k = Some x \<Longrightarrow> map_insert m k v = (m, x, False)"
  by (induction m) (auto split: if_splits)

lemma map_insert_fst_cases:
  "fst (map_insert m k v) = (if map_find m k = None then map_assign m k v else m)"
  by (cases "map_find m k") (simp_all add: map_insert_None map_insert_Some)

lemma map_erase_set: "set (map_erase m k) \<subseteq> set m"
  by (induction m) (auto split: if_splits)

lemma map_erase_sorted: "sorted_map m \<Longrightarrow> sorted_map (map_erase m k)"
  unfolding sorted_map_def
proof (induction m)
  case Nil
  show ?case by simp
next
  case (Cons kv m)
  obtain k0 v0 where kv: "kv = (k0, v0)" by (cases kv)
  have "set (map_erase m k) \<subseteq> set m"
    by (rule map_erase_set)
  with Cons kv show ?case by (auto split: if_splits)
qed

lemma map_find_valid:
  "list_all (\<lambda>(k, a). a < len) m \<Longrightarrow> map_find m k = Some a \<Longrightarrow> a < len"
  by (auto dest!: map_find_mem simp: list_all_iff)

lemma map_assign_valid:
  "list_all (\<lambda>(k, a). a < len) m \<Longrightarrow> v < len \<Longrightarrow> list_all (\<lambda>(k, a). a < len) (map_assign m k v)"
  unfolding list_all_iff by (auto dest!: map_assign_set)

lemma valid_mono:
  "list_all (\<lambda>(k, a). a < len) m \<Longrightarrow> len \<le> len' \<Longrightarrow> list_all (\<lambda>(k, a :: nat). a < len') m"
  unfolding list_all_iff by fastforce

lemma wf_node_mono: "wf_node F len n \<Longrightarrow> len \<le> len' \<Longrightarrow> wf_node F len' n"
  unfolding wf_node_def by (auto intro: valid_mono)

lemma wf_arena_nodeD:
  "wf_arena F shm \<Longrightarrow> a < length (shm_nodes shm) \<Longrightarrow>
   wf_node F (length (shm_nodes shm)) (node_at shm a)"
  unfolding wf_arena_def node_at_def list_all_iff by simp

lemma wf_arena_node_upd:
  assumes "wf_arena F shm"
    and "a < length (shm_nodes shm) \<Longrightarrow> wf_node F (length (shm_nodes shm)) (f (node_at shm a))"
  shows "wf_arena F (node_upd a f shm)"
proof (cases "a < length (shm_nodes shm)")
  case True
  have "set ((shm_nodes shm)[a := f (shm_nodes shm ! a)])
      \<subseteq> insert (f (shm_nodes shm ! a)) (set (shm_nodes shm))"
    by (rule set_update_subset_insert)
  with assms True show ?thesis
    unfolding wf_arena_def node_upd_def node_at_def list_all_iff by auto
next
  case False
  with assms(1) show ?thesis
    unfolding wf_arena_def node_upd_def by (simp add: list_update_beyond)
qed

lemma node_upd_simps [simp]:
  "length (shm_nodes (node_upd a f shm)) = length (shm_nodes shm)"
  "get_size (node_upd a f shm) = get_size shm"
  "shm_meta (node_upd a f shm) = shm_meta shm"
  by (simp_all add: node_upd_def)

lemma node_at_node_upd:
  "node_at (node_upd a f shm) b =
     (if b = a \<and> a < length (shm_nodes shm) then f (node_at shm a) else node_at shm b)"
  by (auto simp: node_upd_def node_at_def list_update_beyond)

lemma construct_node_Inr:
  "construct_node shm n = Inr (a, shm') \<longleftrightarrow>
   length (shm_nodes shm) < get_size shm \<and> a = length (shm_nodes shm)
   \<and> shm' = shm \<lparr> shm_nodes := shm_nodes shm @ [n] \<rparr>"
  by (auto simp: construct_node_def)


lemma node_at_construct:
  "construct_node shm n = Inr (a, shm') \<Longrightarrow> b \<le> length (shm_nodes shm) \<Longrightarrow>
   node_at shm' b = (if b = length (shm_nodes shm) then n else node_at shm b)"
  by (auto simp: construct_node_Inr node_at_def nth_append)

lemma wf_arena_construct:
  assumes "wf_arena F shm" and "construct_node shm n = Inr (a, shm')"
    and "F (m_Flags n)" and "m_Nodes n = []"
  shows "wf_arena F shm'"
proof -
  from assms(2) have s: "shm_nodes shm' = shm_nodes shm @ [n]"
    by (simp add: construct_node_Inr)
  have "wf_node F (Suc (length (shm_nodes shm))) n"
    using assms(3,4) by (simp add: wf_node_def sorted_map_def)
  moreover have "\<forall>x\<in>set (shm_nodes shm). wf_node F (Suc (length (shm_nodes shm))) x"
    using assms(1) unfolding wf_arena_def list_all_iff by (auto intro: wf_node_mono)
  ultimately show ?thesis unfolding wf_arena_def s list_all_iff by simp
qed

lemma wf_upd_self:
  assumes "wf_arena F shm"
  shows "wf_arena F (node_upd a (\<lambda>n. n \<lparr> m_Self := x \<rparr>) shm)"
  using assms
proof (rule wf_arena_node_upd)
  assume "a < length (shm_nodes shm)"
  with assms have "wf_node F (length (shm_nodes shm)) (node_at shm a)" by (rule wf_arena_nodeD)
  then show "wf_node F (length (shm_nodes shm)) (node_at shm a \<lparr> m_Self := x \<rparr>)"
    by (simp add: wf_node_def)
qed

lemma wf_upd_parent:
  assumes "wf_arena F shm"
  shows "wf_arena F (node_upd a (\<lambda>n. n \<lparr> m_Parent := x \<rparr>) shm)"
  using assms
proof (rule wf_arena_node_upd)
  assume "a < length (shm_nodes shm)"
  with assms have "wf_node F (length (shm_nodes shm)) (node_at shm a)" by (rule wf_arena_nodeD)
  then show "wf_node F (length (shm_nodes shm)) (node_at shm a \<lparr> m_Parent := x \<rparr>)"
    by (simp add: wf_node_def)
qed

lemma wf_upd_assign:
  assumes "wf_arena F shm" and v: "v < length (shm_nodes shm)"
  shows "wf_arena F (node_upd a (\<lambda>n. n \<lparr> m_Nodes := map_assign (m_Nodes n) k v \<rparr>) shm)"
  using assms(1)
proof (rule wf_arena_node_upd)
  assume "a < length (shm_nodes shm)"
  with assms(1) have "wf_node F (length (shm_nodes shm)) (node_at shm a)" by (rule wf_arena_nodeD)
  with v show "wf_node F (length (shm_nodes shm))
      (node_at shm a \<lparr> m_Nodes := map_assign (m_Nodes (node_at shm a)) k v \<rparr>)"
    by (simp add: wf_node_def map_assign_sorted map_assign_valid)
qed

lemma wf_upd_insert:
  assumes "wf_arena F shm" and v: "v < length (shm_nodes shm)"
  shows "wf_arena F (node_upd a (\<lambda>n. n \<lparr> m_Nodes := fst (map_insert (m_Nodes n) k v) \<rparr>) shm)"
  using assms(1)
proof (rule wf_arena_node_upd)
  assume "a < length (shm_nodes shm)"
  with assms(1) have "wf_node F (length (shm_nodes shm)) (node_at shm a)" by (rule wf_arena_nodeD)
  with v show "wf_node F (length (shm_nodes shm))
      (node_at shm a \<lparr> m_Nodes := fst (map_insert (m_Nodes (node_at shm a)) k v) \<rparr>)"
    by (simp add: wf_node_def map_insert_fst_cases map_assign_sorted map_assign_valid)
qed

lemma wf_upd_erase:
  "wf_arena F shm \<Longrightarrow> wf_arena F (node_upd a (erase k) shm)"
proof (rule wf_arena_node_upd)
  assume "wf_arena F shm" and "a < length (shm_nodes shm)"
  then have w: "wf_node F (length (shm_nodes shm)) (node_at shm a)" by (rule wf_arena_nodeD)
  have "set (map_erase (m_Nodes (node_at shm a)) k) \<subseteq> set (m_Nodes (node_at shm a))"
    by (rule map_erase_set)
  with w show "wf_node F (length (shm_nodes shm)) (erase k (node_at shm a))"
    unfolding wf_node_def erase_def list_all_iff by (auto intro: map_erase_sorted)
qed

lemma wf_upd_clear:
  assumes "wf_arena F shm"
  shows "wf_arena F (node_upd a clear shm)"
  using assms
proof (rule wf_arena_node_upd)
  assume "a < length (shm_nodes shm)"
  with assms have "wf_node F (length (shm_nodes shm)) (node_at shm a)" by (rule wf_arena_nodeD)
  then show "wf_node F (length (shm_nodes shm)) (clear (node_at shm a))"
    by (simp add: wf_node_def clear_def sorted_map_def)
qed

text \<open>
  \<open>addNode\<close>, whether it returns or throws, leaves a well-formed arena of the same size
  with the same Meta object, in which the nodes that were there still are.
\<close>

lemma addNode_wf:
  assumes "F 3"
  shows "F (ucast flags) \<Longrightarrow> wf_arena F shm \<Longrightarrow> root < length (shm_nodes shm) \<Longrightarrow> base < length (shm_nodes shm) \<Longrightarrow>
     addNode createEmpty shm root base cs data overwrite flags = (r, shm') \<Longrightarrow>
     wf_arena F shm' \<and> length (shm_nodes shm) \<le> length (shm_nodes shm')
     \<and> get_size shm' = get_size shm \<and> shm_meta shm' = shm_meta shm"
proof (induction createEmpty shm root base cs data overwrite flags arbitrary: r shm'
       rule: addNode.induct)
  case (1 createEmpty shm root base data overwrite flags)
  then show ?case by simp
next
  case (2 createEmpty shm root base c data overwrite flags)
  let ?found = "case node (node_at shm root) c of
              Some n \<Rightarrow> Inr (n, shm)
            | None \<Rightarrow> createSubNode shm c flags data"
  show ?case
  proof (cases ?found)
    case (Inl e)
    with "2.prems" show ?thesis by simp
  next
    case (Inr p)
    obtain newNode shm1 where p: "p = (newNode, shm1)" by (cases p)
    have w1: "wf_arena F shm1 \<and> newNode < length (shm_nodes shm1)
        \<and> length (shm_nodes shm) \<le> length (shm_nodes shm1)
        \<and> get_size shm1 = get_size shm \<and> shm_meta shm1 = shm_meta shm"
    proof (cases "node (node_at shm root) c")
      case None
      with Inr p have c: "construct_node shm (DirectoryTree_ctor c flags None data) = Inr (newNode, shm1)"
        by (simp add: createSubNode_def)
      have "wf_arena F shm1"
        by (rule wf_arena_construct [OF "2.prems"(2) c]) (simp_all add: DirectoryTree_ctor_def "2.prems"(1))
      with c show ?thesis by (auto simp: construct_node_Inr)
    next
      case (Some n)
      with Inr p have "newNode = n" "shm1 = shm" by simp_all
      moreover from Some "2.prems"(2,3) have "n < length (shm_nodes shm)"
        unfolding node_def by (auto dest!: wf_arena_nodeD [where a = root] map_find_valid simp: wf_node_def)
      ultimately show ?thesis using "2.prems"(2) by simp
    qed
    define shm2 where "shm2 = node_upd newNode (\<lambda>n. n \<lparr> m_Self := Some newNode \<rparr>) shm1"
    define shm3 where "shm3 = node_upd newNode (\<lambda>n. n \<lparr> m_Parent := m_Self (node_at shm2 base) \<rparr>) shm2"
    have w3: "wf_arena F shm3" "length (shm_nodes shm3) = length (shm_nodes shm1)"
      "get_size shm3 = get_size shm1" "shm_meta shm3 = shm_meta shm1"
      using w1 by (simp_all add: shm2_def shm3_def wf_upd_self wf_upd_parent)
    show ?thesis
    proof (cases overwrite)
      case True
      with "2.prems"(5) Inr p have "shm' = node_upd base
          (\<lambda>n. n \<lparr> m_Nodes := map_assign (m_Nodes n) (c_str c) newNode \<rparr>) shm3"
        by (simp add: shm2_def shm3_def Let_def)
      with w1 w3 show ?thesis by (simp add: wf_upd_assign)
    next
      case False
      obtain m' r0 ins where mi: "map_insert (m_Nodes (node_at shm3 base)) (c_str c) newNode = (m', r0, ins)"
        by (cases "map_insert (m_Nodes (node_at shm3 base)) (c_str c) newNode") auto
      with False "2.prems"(5) Inr p have s': "shm' = node_upd base (\<lambda>n. n \<lparr> m_Nodes := m' \<rparr>) shm3"
        by (simp add: shm2_def shm3_def Let_def)
      from mi have "m' = fst (map_insert (m_Nodes (node_at shm3 base)) (c_str c) newNode)" by simp
      then have "shm' = node_upd base
          (\<lambda>n. n \<lparr> m_Nodes := fst (map_insert (m_Nodes n) (c_str c) newNode) \<rparr>) shm3"
        unfolding s' by (simp add: node_upd_def node_at_def)
      with w1 w3 show ?thesis by (simp add: wf_upd_insert)
    qed
  qed
next
  case (3 createEmpty shm root base c v va data overwrite flags)
  show ?case
  proof (cases "map_find (m_Nodes (node_at shm base)) (c_str c)")
    case (Some subNode)
    with "3.prems"(2,4) have "subNode < length (shm_nodes shm)"
      by (auto dest!: wf_arena_nodeD [where a = base] map_find_valid simp: wf_node_def)
    moreover from Some "3.prems"(5)
    have "addNode createEmpty shm root subNode (v # va) data overwrite flags = (r, shm')" by simp
    ultimately show ?thesis
      by (rule "3.IH"(2) [OF Some "3.prems"(1) "3.prems"(2) "3.prems"(3)])
  next
    case None
    show ?thesis
    proof (cases "createSubNode shm c (ucast (FLAG_DIRECTORY OR FLAG_DUMMY)) createEmpty")
      case (Inl e)
      with None "3.prems" show ?thesis by simp
    next
      case (Inr p)
      obtain newNode shm1 where p: "p = (newNode, shm1)" by (cases p)
      from Inr p have c: "construct_node shm
          (DirectoryTree_ctor c (ucast (FLAG_DIRECTORY OR FLAG_DUMMY)) None createEmpty) = Inr (newNode, shm1)"
        by (simp add: createSubNode_def)
      have f3: "F (ucast (ucast (FLAG_DIRECTORY OR FLAG_DUMMY) :: 32 word))"
        using assms by (simp add: FLAG_DIRECTORY_def FLAG_DUMMY_def)
      have w1: "wf_arena F shm1"
        by (rule wf_arena_construct [OF "3.prems"(2) c]) (simp_all add: DirectoryTree_ctor_def f3)
      from c have l1: "length (shm_nodes shm1) = Suc (length (shm_nodes shm))"
        "newNode = length (shm_nodes shm)" "get_size shm1 = get_size shm" "shm_meta shm1 = shm_meta shm"
        by (auto simp: construct_node_Inr)
      define shm2 where "shm2 = node_upd base
          (\<lambda>n. n \<lparr> m_Nodes := fst (map_insert (m_Nodes n) (c_str c) newNode) \<rparr>) shm1"
      define shm3 where "shm3 = node_upd newNode (\<lambda>n. n \<lparr> m_Self := Some newNode \<rparr>) shm2"
      define shm4 where "shm4 = node_upd newNode (\<lambda>n. n \<lparr> m_Parent := m_Self (node_at shm3 base) \<rparr>) shm3"
      have w4: "wf_arena F shm4"
        using w1 l1 by (simp add: shm2_def shm3_def shm4_def wf_upd_insert wf_upd_self wf_upd_parent)
      have l4: "length (shm_nodes shm4) = Suc (length (shm_nodes shm))"
        "get_size shm4 = get_size shm" "shm_meta shm4 = shm_meta shm"
        using l1 by (simp_all add: shm2_def shm3_def shm4_def)
      from None Inr p "3.prems"(5)
      have a: "addNode createEmpty shm4 root newNode (v # va) data overwrite flags = (r, shm')"
        by (simp add: shm2_def shm3_def shm4_def Let_def)
      have r4: "root < length (shm_nodes shm4)" and n4: "newNode < length (shm_nodes shm4)"
        using "3.prems"(3) l4 l1 by simp_all
      have "wf_arena F shm' \<and> length (shm_nodes shm4) \<le> length (shm_nodes shm')
          \<and> get_size shm' = get_size shm4 \<and> shm_meta shm' = shm_meta shm4"
        by (rule "3.IH"(1) [OF None Inr p [symmetric] shm2_def shm3_def shm4_def
              "3.prems"(1) w4 r4 n4 a])
      with l4 show ?thesis by simp
    qed
  qed
qed

text \<open>\<open>copyTree\<close> builds a well-formed arena from a well-formed one.\<close>

lemma copyTree_wf:
  assumes "F 1" and "wf_arena F src"
  shows "wf_arena F dst \<Longrightarrow> reference < length (shm_nodes src) \<Longrightarrow>
     destination < length (shm_nodes dst) \<Longrightarrow>
     copyTree fuel createEmpty src dst destination reference = Some (Inr dst') \<Longrightarrow>
     wf_arena F dst' \<and> length (shm_nodes dst) \<le> length (shm_nodes dst')
     \<and> get_size dst' = get_size dst \<and> shm_meta dst' = shm_meta dst"
  and "wf_arena F dst \<Longrightarrow> list_all (\<lambda>(k, a). a < length (shm_nodes src)) kvs \<Longrightarrow>
     destination < length (shm_nodes dst) \<Longrightarrow>
     copyTree_loop fuel createEmpty src dst destination kvs = Some (Inr dst') \<Longrightarrow>
     wf_arena F dst' \<and> length (shm_nodes dst) \<le> length (shm_nodes dst')
     \<and> get_size dst' = get_size dst \<and> shm_meta dst' = shm_meta dst"
  using assms(2)
proof (induction fuel createEmpty src dst destination reference
         and fuel createEmpty src dst destination kvs
       arbitrary: dst' and dst' rule: copyTree_copyTree_loop.induct)
  case (1 createEmpty src dst destination reference)
  then show ?case by simp
next
  case (2 fuel createEmpty src dst destination reference)
  define dst1 where "dst1 = node_upd destination
          (\<lambda>n. n \<lparr> m_Flags := m_Flags (node_at src reference),
                   m_Data := m_Data (node_at src reference),
                   m_Name := c_str (m_Name (node_at src reference)) \<rparr>) dst"
  from "2.prems"(5,2) have r: "wf_node F (length (shm_nodes src)) (node_at src reference)"
    by (rule wf_arena_nodeD)
  have w1: "wf_arena F dst1"
    unfolding dst1_def using "2.prems"(1)
  proof (rule wf_arena_node_upd)
    assume "destination < length (shm_nodes dst)"
    with "2.prems"(1) have "wf_node F (length (shm_nodes dst)) (node_at dst destination)"
      by (rule wf_arena_nodeD)
    with r show "wf_node F (length (shm_nodes dst))
        (node_at dst destination \<lparr> m_Flags := m_Flags (node_at src reference),
                   m_Data := m_Data (node_at src reference),
                   m_Name := c_str (m_Name (node_at src reference)) \<rparr>)"
      by (simp add: wf_node_def)
  qed
  from r have v: "list_all (\<lambda>(k, a). a < length (shm_nodes src)) (m_Nodes (node_at src reference))"
    by (simp add: wf_node_def)
  from "2.prems"(4) have l: "copyTree_loop fuel createEmpty src dst1 destination
      (m_Nodes (node_at src reference)) = Some (Inr dst')"
    by (simp add: dst1_def)
  have d1: "destination < length (shm_nodes dst1)" using "2.prems"(3) by (simp add: dst1_def)
  have "wf_arena F dst' \<and> length (shm_nodes dst1) \<le> length (shm_nodes dst')
     \<and> get_size dst' = get_size dst1 \<and> shm_meta dst' = shm_meta dst1"
    using w1 v d1 l "2.prems"(5) unfolding dst1_def by (rule "2.IH")
  then show ?case by (simp add: dst1_def)
next
  case (3 fuel createEmpty src dst destination)
  then show ?case by simp
next
  case (4 fuel createEmpty src dst destination k source kvs)
  show ?case
  proof (cases "createSubNode dst [] 1 createEmpty")
    case (Inl e)
    with "4.prems" show ?thesis by simp
  next
    case (Inr p)
    note cs = this
    obtain newNode dst1 where p: "p = (newNode, dst1)" by (cases p)
    from Inr p have c: "construct_node dst (DirectoryTree_ctor [] 1 None createEmpty) = Inr (newNode, dst1)"
      by (simp add: createSubNode_def)
    have w1: "wf_arena F dst1"
      by (rule wf_arena_construct [OF "4.prems"(1) c]) (simp_all add: DirectoryTree_ctor_def assms(1))
    from c have l1: "length (shm_nodes dst1) = Suc (length (shm_nodes dst))"
      "newNode = length (shm_nodes dst)" "get_size dst1 = get_size dst" "shm_meta dst1 = shm_meta dst"
      by (auto simp: construct_node_Inr)
    define dst1s where "dst1s = node_upd newNode (\<lambda>n. n \<lparr> m_Self := Some newNode \<rparr>) dst1"
    have w1s: "wf_arena F dst1s" using w1 by (simp add: dst1s_def wf_upd_self)
    from "4.prems"(2) have sv: "source < length (shm_nodes src)"
      and kv: "list_all (\<lambda>(k, a). a < length (shm_nodes src)) kvs" by simp_all
    have n1: "newNode < length (shm_nodes dst1s)" using l1 by (simp add: dst1s_def)
    show ?thesis
    proof (cases "copyTree fuel createEmpty src dst1s newNode source")
      case None
      with cs p "4.prems"(4) show ?thesis by (simp add: dst1s_def)
    next
      case (Some res)
      show ?thesis
      proof (cases res)
        case (Inl e)
        with Some cs p "4.prems"(4) show ?thesis by (simp add: dst1s_def)
      next
        case (Inr dst2)
        with Some have ct: "copyTree fuel createEmpty src dst1s newNode source = Some (Inr dst2)"
          by simp
        have w2: "wf_arena F dst2 \<and> length (shm_nodes dst1s) \<le> length (shm_nodes dst2)
            \<and> get_size dst2 = get_size dst1s \<and> shm_meta dst2 = shm_meta dst1s"
          using w1s sv n1 ct "4.prems"(5) unfolding dst1s_def
          by (rule "4.IH"(1) [OF cs p [symmetric]])
        define dst3 where "dst3 = node_upd destination
            (\<lambda>n. n \<lparr> m_Nodes := map_assign (m_Nodes n) (m_Name (node_at dst2 newNode)) newNode \<rparr>) dst2"
        define dst4 where "dst4 = node_upd newNode
            (\<lambda>n. n \<lparr> m_Parent := m_Self (node_at dst3 destination) \<rparr>) dst3"
        have w4: "wf_arena F dst4"
          using w2 n1 by (simp add: dst3_def dst4_def wf_upd_assign wf_upd_parent)
        have l4: "length (shm_nodes dst4) = length (shm_nodes dst2)"
          "get_size dst4 = get_size dst2" "shm_meta dst4 = shm_meta dst2"
          by (simp_all add: dst3_def dst4_def)
        have d4: "destination < length (shm_nodes dst4)"
          using "4.prems"(3) w2 l1 l4 by (simp add: dst1s_def)
        from Some Inr cs p "4.prems"(4)
        have lp: "copyTree_loop fuel createEmpty src dst4 destination kvs = Some (Inr dst')"
          by (simp add: dst1s_def dst3_def dst4_def Let_def)
        have "wf_arena F dst' \<and> length (shm_nodes dst4) \<le> length (shm_nodes dst')
            \<and> get_size dst' = get_size dst4 \<and> shm_meta dst' = shm_meta dst4"
          using w4 kv d4 lp "4.prems"(5)
          by (rule "4.IH"(2) [OF cs p [symmetric] Some [unfolded dst1s_def] Inr dst3_def dst4_def])
        with w2 l1 l4 show ?thesis by (simp add: dst1s_def)
      qed
    qed
  qed
qed

text \<open>The container stays well-formed through migration, insertion and removal.\<close>

lemma wf_open_or_create:
  "\<forall>name shm. world name = Some shm \<longrightarrow> wf_named_arena F shm \<Longrightarrow>
   wf_named_arena F (open_or_create world SHMName sz)"
  by (auto simp: open_or_create_def wf_named_arena_def wf_arena_def split: option.splits)

lemma TreeMeta_ctor_wf:
  assumes "F 1" and "wf_arena F shm" and "TreeMeta_ctor data shm = Inr (shm1, meta)"
  shows "wf_arena F shm1 \<and> tree meta < length (shm_nodes shm1)"
proof -
  from assms(3) obtain a shm0 where
    c: "construct_node shm (DirectoryTree_ctor [] 1 None data) = Inr (a, shm0)"
    and s: "shm1 = shm0 \<lparr> shm_meta := Some meta \<rparr>" and m: "tree meta = a"
    by (auto simp: TreeMeta_ctor_def Let_def split: sum.splits)
  have "wf_arena F shm0"
    by (rule wf_arena_construct [OF assms(2) c]) (simp_all add: DirectoryTree_ctor_def assms(1))
  with c s m show ?thesis by (auto simp: construct_node_Inr wf_arena_def)
qed

lemma activateSHM_wf:
  assumes F: "F 1"
    and world: "\<forall>name shm. world name = Some shm \<longrightarrow> wf_named_arena F shm"
    and shm: "wf_named_arena F shm"
    and old: "\<And>oldName oldSHM oldMeta. old = Some (oldName, oldSHM, oldMeta) \<Longrightarrow>
                wf_arena F oldSHM \<and> tree oldMeta < length (shm_nodes oldSHM)"
    and act: "activateSHM fuel createEmpty world old shm SHMName = Some (Inr c')"
  shows "wf_container F c'"
proof -
  let ?found = "case shm_meta shm of
              Some meta \<Rightarrow> Some (Inr (shm, meta))
            | None \<Rightarrow>
                (case TreeMeta_ctor createEmpty shm of
                   Inl e \<Rightarrow> Some (Inl e)
                 | Inr (shm1, meta) \<Rightarrow>
                     (case old of
                        None \<Rightarrow> Some (Inr (shm1, meta))
                      | Some (oldName, oldSHM, oldMeta) \<Rightarrow>
                          (case copyTree fuel createEmpty oldSHM shm1 (tree meta) (tree oldMeta) of
                             None \<Rightarrow> None
                           | Some (Inl e) \<Rightarrow> Some (Inl e)
                           | Some (Inr shm2) \<Rightarrow> Some (Inr (shm2, meta)))))"
  from act obtain shm' meta where found: "?found = Some (Inr (shm', meta))"
    by (auto simp: activateSHM_def split: option.splits sum.splits)
  have w': "wf_arena F shm' \<and> tree meta < length (shm_nodes shm')"
  proof (cases "shm_meta shm")
    case (Some m)
    with found shm show ?thesis by (auto simp: wf_named_arena_def)
  next
    case None
    with found obtain shm1 where t: "TreeMeta_ctor createEmpty shm = Inr (shm1, meta)"
      by (auto split: sum.splits option.splits)
    from shm have "wf_arena F shm" by (simp add: wf_named_arena_def)
    then have w1: "wf_arena F shm1 \<and> tree meta < length (shm_nodes shm1)"
      using t by (rule TreeMeta_ctor_wf [where F = F, OF F])
    show ?thesis
    proof (cases old)
      case on: None
      with found None t w1 show ?thesis by simp
    next
      case (Some ov)
      obtain oldName oldSHM oldMeta where ov: "ov = (oldName, oldSHM, oldMeta)" by (cases ov)
      with found None t Some ov
      have ct: "copyTree fuel createEmpty oldSHM shm1 (tree meta) (tree oldMeta) = Some (Inr shm')"
        by (auto split: option.splits sum.splits)
      from old Some ov have wo: "wf_arena F oldSHM" and tov: "tree oldMeta < length (shm_nodes oldSHM)"
        by auto
      have "wf_arena F shm' \<and> length (shm_nodes shm1) \<le> length (shm_nodes shm')
          \<and> get_size shm' = get_size shm1 \<and> shm_meta shm' = shm_meta shm1"
        using conjunct1 [OF w1] tov conjunct2 [OF w1] ct by (rule copyTree_wf(1) [where F = F, OF F wo])
      with w1 show ?thesis by simp
    qed
  qed
  define world' where "world' =
                 (case old of
                    None \<Rightarrow> world
                  | Some (oldName, oldSHM, oldMeta) \<Rightarrow>
                      (let oldMeta' = oldMeta \<lparr> referenceCount := referenceCount oldMeta - 1 \<rparr>
                       in if referenceCount oldMeta' = 0 then world (oldName := None)
                          else world (oldName := Some (oldSHM \<lparr> shm_meta := Some oldMeta' \<rparr>))))"
  have ww: "\<forall>name a. world' name = Some a \<longrightarrow> wf_named_arena F a"
  proof (cases old)
    case None
    with world show ?thesis by (simp add: world'_def)
  next
    case (Some ov)
    obtain oldName oldSHM oldMeta where ov: "ov = (oldName, oldSHM, oldMeta)" by (cases ov)
    from old Some ov have "wf_arena F oldSHM" and "tree oldMeta < length (shm_nodes oldSHM)"
      by auto
    then have "wf_named_arena F (oldSHM \<lparr> shm_meta :=
        Some (oldMeta \<lparr> referenceCount := referenceCount oldMeta - 1 \<rparr>) \<rparr>)"
      by (simp add: wf_named_arena_def wf_arena_def)
    with world Some ov show ?thesis by (auto simp: world'_def Let_def)
  qed
  from act found have c': "c' = \<lparr> m_SHMName = SHMName, m_SHM = shm' \<lparr> shm_meta :=
        Some (meta \<lparr> referenceCount := referenceCount meta + 1 \<rparr>) \<rparr>,
      m_TreeMeta = meta \<lparr> referenceCount := referenceCount meta + 1 \<rparr>,
      shared_memory = world' (SHMName := None) \<rparr>"
    by (simp add: activateSHM_def world'_def Let_def)
  show ?thesis
    unfolding c' wf_container_def using w' ww by (simp add: wf_arena_def)
qed

lemma createOrOpen_wf:
  assumes "F 1" and "wf_container F c"
    and "createOrOpen fuel createEmpty c SHMName sz = Some (Inr c')"
  shows "wf_container F c'"
proof (rule activateSHM_wf [where F = F, OF assms(1)])
  show "\<forall>name shm. shared_memory c name = Some shm \<longrightarrow> wf_named_arena F shm"
    using assms(2) by (simp add: wf_container_def)
  then show "wf_named_arena F (open_or_create (shared_memory c) SHMName sz)"
    by (rule wf_open_or_create)
  show "activateSHM fuel createEmpty (shared_memory c) (Some (m_SHMName c, m_SHM c, m_TreeMeta c))
       (open_or_create (shared_memory c) SHMName sz) SHMName = Some (Inr c')"
    using assms(3) by (simp add: createOrOpen_def)
  fix oldName oldSHM oldMeta
  assume "Some (m_SHMName c, m_SHM c, m_TreeMeta c) = Some (oldName, oldSHM, oldMeta)"
  with assms(2) show "wf_arena F oldSHM \<and> tree oldMeta < length (shm_nodes oldSHM)"
    by (auto simp: wf_container_def)
qed

lemma reassign_loop_wf:
  assumes "F 1"
  shows "wf_container F c \<Longrightarrow> reassign_loop fuel createEmpty c = Some (Inr c') \<Longrightarrow>
         wf_container F c'"
proof (induction fuel arbitrary: c)
  case 0
  then show ?case by simp
next
  case (Suc fuel)
  from Suc.prems(2) obtain nextName c1 where
    co: "createOrOpen fuel createEmpty c nextName (get_size (m_SHM c) * 2) = Some (Inr c1)"
    and rest: "(if \<not> outdated (m_TreeMeta c1) then Some (Inr c1)
                else reassign_loop fuel createEmpty c1) = Some (Inr c')"
    by (auto split: sum.splits option.splits)
  have w1: "wf_container F c1"
    using Suc.prems(1) co by (rule createOrOpen_wf [where F = F, OF assms])
  show ?case
  proof (cases "outdated (m_TreeMeta c1)")
    case True
    with rest have "reassign_loop fuel createEmpty c1 = Some (Inr c')" by simp
    with w1 show ?thesis by (rule Suc.IH)
  next
    case False
    with rest w1 show ?thesis by simp
  qed
qed

lemma reassign_wf:
  assumes "F 1" and "wf_container F c" and "reassign fuel createEmpty c = Some (Inr c')"
  shows "wf_container F c'"
proof -
  have "wf_container F (c \<lparr> m_TreeMeta := (m_TreeMeta c) \<lparr> outdated := True \<rparr> \<rparr>)"
    using assms(2) by (simp add: wf_container_def)
  then show ?thesis
    using assms(3) unfolding reassign_def by (rule reassign_loop_wf [where F = F, OF assms(1)])
qed

lemma addFile_flags_wf:
  assumes "F 1" and "F 3" and "F (ucast flags)"
  shows "wf_container F c \<Longrightarrow>
         addFile_flags fuel createEmpty c name data flags overwrite = Some (Inr (r, c')) \<Longrightarrow>
         wf_container F c'"
proof (induction fuel arbitrary: c)
  case 0
  then show ?case by simp
next
  case (Suc fuel)
  from Suc.prems(2) have no: "\<not> outdated (m_TreeMeta c)" by (auto split: if_splits)
  obtain res shm' where a: "addNode createEmpty (m_SHM c) (tree (m_TreeMeta c)) (tree (m_TreeMeta c))
                (path_components name) data overwrite flags = (res, shm')"
    by (cases "addNode createEmpty (m_SHM c) (tree (m_TreeMeta c)) (tree (m_TreeMeta c))
                (path_components name) data overwrite flags") auto
  from Suc.prems(1) have wc: "wf_arena F (m_SHM c)"
    and tc: "tree (m_TreeMeta c) < length (shm_nodes (m_SHM c))"
    by (simp_all add: wf_container_def)
  have w': "wf_arena F shm' \<and> length (shm_nodes (m_SHM c)) \<le> length (shm_nodes shm')
     \<and> get_size shm' = get_size (m_SHM c) \<and> shm_meta shm' = shm_meta (m_SHM c)"
    using assms(3) wc tc tc a by (rule addNode_wf [where F = F, OF assms(2)])
  then have wc': "wf_container F (c \<lparr> m_SHM := shm' \<rparr>)"
    using Suc.prems(1) tc by (simp add: wf_container_def)
  show ?case
  proof (cases res)
    case (Inr x)
    with Suc.prems(2) no a have "c' = c \<lparr> m_SHM := shm' \<rparr>" by simp
    with wc' show ?thesis by simp
  next
    case (Inl e)
    with Suc.prems(2) no a obtain c1 where
      re: "reassign fuel createEmpty (c \<lparr> m_SHM := shm' \<rparr>) = Some (Inr c1)"
      and af: "addFile_flags fuel createEmpty c1 name data flags overwrite = Some (Inr (r, c'))"
      by (cases e) (auto split: option.splits sum.splits)
    from wc' re have "wf_container F c1" by (rule reassign_wf [where F = F, OF assms(1)])
    then show ?thesis using af by (rule Suc.IH)
  qed
qed

lemma ucast_flags_id: "(ucast (ucast (flags :: TreeFlags) :: 32 word) :: TreeFlags) = flags"
  by (simp add: ucast_up_ucast_id is_up)

lemma apply_op_wf:
  assumes "F 1" and "F 3" and "op_flags F x" and "wf_container F c"
    and "apply_op fuel createEmpty c x = Some (Inr c')"
  shows "wf_container F c'"
proof (cases x)
  case (AddFile name data flags overwrite)
  with assms(5) obtain r where
    af: "addFile_flags fuel createEmpty c name data (ucast flags) overwrite = Some (Inr (r, c'))"
    by (auto simp: addFile_def split: option.splits sum.splits)
  from assms(3) AddFile have fl: "F (ucast (ucast flags :: 32 word))"
    by (simp add: ucast_flags_id)
  show ?thesis
    by (rule addFile_flags_wf [where F = F, OF assms(1) assms(2) fl assms(4) af])
next
  case (AddDirectory name data flags overwrite)
  with assms(5) obtain r where
    af: "addFile_flags fuel createEmpty c name data (ucast (flags OR FLAG_DIRECTORY)) overwrite
      = Some (Inr (r, c'))"
    by (auto simp: addDirectory_def split: option.splits sum.splits)
  from assms(3) AddDirectory have fl: "F (ucast (ucast (flags OR FLAG_DIRECTORY) :: 32 word))"
    by (simp add: ucast_flags_id)
  show ?thesis
    by (rule addFile_flags_wf [where F = F, OF assms(1) assms(2) fl assms(4) af])
next
  case Clear
  with assms(5) have "c' = container_clear c" by simp
  with assms(4) show ?thesis
    by (simp add: container_clear_def wf_container_def wf_upd_clear)
next
  case (Erase a k)
  with assms(5) have "c' = c \<lparr> m_SHM := node_upd a (erase k) (m_SHM c) \<rparr>" by simp
  with assms(4) show ?thesis
    by (simp add: wf_container_def wf_upd_erase)
qed

lemma apply_ops_wf:
  assumes "F 1" and "F 3"
  shows "list_all (op_flags F) xs \<Longrightarrow> wf_container F c \<Longrightarrow>
         apply_ops fuel createEmpty c xs = Some (Inr c') \<Longrightarrow> wf_container F c'"
proof (induction xs arbitrary: c)
  case Nil
  then show ?case by simp
next
  case (Cons x xs)
  from Cons.prems(3) obtain c1 where
    s: "apply_op fuel createEmpty c x = Some (Inr c1)"
    and r: "apply_ops fuel createEmpty c1 xs = Some (Inr c')"
    by (auto split: option.splits sum.splits)
  from Cons.prems(1) have x: "op_flags F x" and xs: "list_all (op_flags F) xs" by simp_all
  have "wf_container F c1"
    by (rule apply_op_wf [where F = F, OF assms x Cons.prems(2) s])
  with xs show ?case using r by (rule Cons.IH)
qed

lemma build_wf:
  assumes "F 1" and "F 3" and "list_all (op_flags F) xs"
    and "build fuel createEmpty SHMName sz xs = Some (Inr c)"
  shows "wf_container F c"
proof -
  from assms(4) obtain c0 where
    ctor: "TreeContainer_ctor createEmpty (\<lambda>_. None) SHMName sz = Some (Inr c0)"
    and ops: "apply_ops fuel createEmpty c0 xs = Some (Inr c)"
    by (auto simp: build_def split: option.splits sum.splits)
  have "wf_container F c0"
  proof (rule activateSHM_wf [where F = F, OF assms(1)])
    show "\<forall>name shm. (\<lambda>_. None) name = Some shm \<longrightarrow> wf_named_arena F (shm :: 'a SharedMemoryT)"
      by simp
    then show "wf_named_arena F (open_or_create (\<lambda>_. None) (TreeContainer_name SHMName) sz
        :: 'a SharedMemoryT)"
      by (rule wf_open_or_create)
    show "activateSHM 0 createEmpty (\<lambda>_. None) None
        (open_or_create (\<lambda>_. None) (TreeContainer_name SHMName) sz) (TreeContainer_name SHMName)
        = Some (Inr c0)"
      using ctor by (simp add: TreeContainer_ctor_def)
  qed simp
  with assms(3) show ?thesis using ops by (rule apply_ops_wf [where F = F, OF assms(1,2)])
qed

section \<open>Insertion and lookup\<close>

text \<open>
  C1 fails on the code. \<^verbatim>\<open>addNode\<close> looks the last component up with
  \<^verbatim>\<open>this->get()->node(...)\<close>, among the children of the root and not among those of
  \<^verbatim>\<open>base\<close>, and when it finds a node there it attaches that node and leaves its payload as
  it was. Adding \<^verbatim>\<open>f\<close> with payload 1 and then again with payload 2 (overwrite set) leaves
  payload 1 at \<^verbatim>\<open>f\<close>; adding \<^verbatim>\<open>b\<close> with payload 1 and then \<^verbatim>\<open>a/b\<close> with payload 2 puts
  the node of \<^verbatim>\<open>b\<close> under \<^verbatim>\<open>a\<close> as well, so that \<^verbatim>\<open>a/b\<close> has payload 1.
\<close>

theorem C1_addFile_keeps_old_payload:
  "(case build (Suc 0) (0::int) ''svc'' 16 [AddFile ''f'' 1 0 True, AddFile ''f'' 2 0 True] of
      Some (Inr c) \<Rightarrow>
        map_option (\<lambda>a. m_Data (node_at (m_SHM c) a))
          (findNode (m_SHM c) (tree (m_TreeMeta c)) ''f'') = Some 1
    | _ \<Rightarrow> False)
   \<and> (case build (Suc 0) (0::int) ''svc'' 16 [AddFile ''b'' 1 0 True, AddFile ''a/b'' 2 0 True] of
      Some (Inr c) \<Rightarrow>
        map_option (\<lambda>a. m_Data (node_at (m_SHM c) a))
          (findNode (m_SHM c) (tree (m_TreeMeta c)) ''a/b'') = Some 1
        \<and> findNode (m_SHM c) (tree (m_TreeMeta c)) ''a/b''
            = findNode (m_SHM c) (tree (m_TreeMeta c)) ''b''
    | _ \<Rightarrow> False)"
  by (simp add: tree_eval)

section \<open>Counting nodes\<close>

text \<open>
  C2 fails on the code. \<^verbatim>\<open>numNodesRecursive\<close> starts from \<^verbatim>\<open>numNodes() + 1\<close> and then
  adds the count of every child, which counts the child again. A root with the one file
  \<^verbatim>\<open>f\<close> is a tree of 2 nodes; the count of \<^verbatim>\<open>f\<close> is 1, and the count of the root is 3,
  neither the number of nodes nor 1 plus the counts of the children.
\<close>

theorem C2_numNodesRecursive_counts_children_twice:
  "(case build (Suc 0) (0::int) ''svc'' 16 [AddFile ''f'' 1 0 True] of
      Some (Inr c) \<Rightarrow>
        length (shm_nodes (m_SHM c)) = 2
        \<and> map (\<lambda>(k, a). numNodesRecursive (Suc 0) (m_SHM c) a)
              (m_Nodes (node_at (m_SHM c) (tree (m_TreeMeta c)))) = [Some 1]
        \<and> numNodesRecursive (Suc (Suc 0)) (m_SHM c) (tree (m_TreeMeta c)) = Some 3
    | _ \<Rightarrow> False)"
  by (simp add: tree_eval)

section \<open>An insertion that runs out of memory\<close>
















section \<open>From a node to its path and back\<close>

text \<open>
  C4 fails on the code. When the last component of a path names a child of the root,
  \<^verbatim>\<open>addNode\<close> takes that child for the node to attach and sets its parent to \<^verbatim>\<open>base\<close>,
  whether or not \<^verbatim>\<open>base\<close> then files it. After \<^verbatim>\<open>addFile("a/b", 1)\<close>,
  \<^verbatim>\<open>addFile("b", 2)\<close> and \<^verbatim>\<open>addFile("a/b", 3, 0, false)\<close> the node that the root finds at
  \<^verbatim>\<open>b\<close> has the path \<^verbatim>\<open>a\b\<close>, where the root finds the other node. After
  \<^verbatim>\<open>addFile("a/b", 1)\<close> and \<^verbatim>\<open>addFile("a/b/a", 2)\<close> the node that the root finds at \<^verbatim>\<open>a\<close> is
  the parent of its own parent, and \<^verbatim>\<open>path()\<close> does not return for it, whatever the depth
  it may recurse to.
\<close>

theorem C4_round_trip_fails:
  "(case build (Suc 0) (0::int) ''svc'' 16
           [AddFile ''a/b'' 1 0 True, AddFile ''b'' 2 0 True, AddFile ''a/b'' 3 0 False] of
      Some (Inr c) \<Rightarrow>
        findNode (m_SHM c) (tree (m_TreeMeta c)) ''b'' = Some 3
        \<and> (\<forall>fuel. path (Suc (Suc fuel)) (m_SHM c) 3 = Some (''a'' @ [CHR 0x5C] @ ''b''))
        \<and> findNode (m_SHM c) (tree (m_TreeMeta c)) (''a'' @ [CHR 0x5C] @ ''b'') = Some 2
    | _ \<Rightarrow> False)
   \<and> (case build (Suc 0) (0::int) ''svc'' 16
           [AddFile ''a/b'' 1 0 True, AddFile ''a/b/a'' 2 0 True] of
      Some (Inr c) \<Rightarrow>
        findNode (m_SHM c) (tree (m_TreeMeta c)) ''a'' = Some 1
        \<and> (\<forall>fuel. path fuel (m_SHM c) 1 = None)
    | _ \<Rightarrow> False)"
proof -
  have one: "case build (Suc 0) (0::int) ''svc'' 16
           [AddFile ''a/b'' 1 0 True, AddFile ''b'' 2 0 True, AddFile ''a/b'' 3 0 False] of
      Some (Inr c) \<Rightarrow>
        findNode (m_SHM c) (tree (m_TreeMeta c)) ''b'' = Some 3
        \<and> (\<forall>fuel. path (Suc (Suc fuel)) (m_SHM c) 3 = Some (''a'' @ [CHR 0x5C] @ ''b''))
        \<and> findNode (m_SHM c) (tree (m_TreeMeta c)) (''a'' @ [CHR 0x5C] @ ''b'') = Some 2
    | _ \<Rightarrow> False"
    by (simp add: tree_eval path_append_def)
  have "\<exists>c. build (Suc 0) (0::int) ''svc'' 16
           [AddFile ''a/b'' 1 0 True, AddFile ''a/b/a'' 2 0 True] = Some (Inr c)
      \<and> findNode (m_SHM c) (tree (m_TreeMeta c)) ''a'' = Some 1
      \<and> m_Parent (node_at (m_SHM c) 1) = Some 2
      \<and> m_Parent (node_at (m_SHM c) 2) = Some 1"
    by (simp add: tree_eval)
  then obtain c where b: "build (Suc 0) (0::int) ''svc'' 16
           [AddFile ''a/b'' 1 0 True, AddFile ''a/b/a'' 2 0 True] = Some (Inr c)"
    and f: "findNode (m_SHM c) (tree (m_TreeMeta c)) ''a'' = Some 1"
    and p1: "m_Parent (node_at (m_SHM c) 1) = Some 2"
    and p2: "m_Parent (node_at (m_SHM c) 2) = Some 1"
    by blast
  have "path fuel (m_SHM c) 1 = None \<and> path fuel (m_SHM c) 2 = None" for fuel
    using p1 p2 by (induction fuel) simp_all
  then have "\<forall>fuel. path fuel (m_SHM c) 1 = None" by simp
  with b f have two: "case build (Suc 0) (0::int) ''svc'' 16
           [AddFile ''a/b'' 1 0 True, AddFile ''a/b/a'' 2 0 True] of
      Some (Inr c) \<Rightarrow>
        findNode (m_SHM c) (tree (m_TreeMeta c)) ''a'' = Some 1
        \<and> (\<forall>fuel. path fuel (m_SHM c) 1 = None)
    | _ \<Rightarrow> False"
    by simp
  from one two show ?thesis by (rule conjI)
qed

section \<open>Migration copies the tree\<close>

lemma map_assign_append:
  "\<forall>k0\<in>fst ` set m. CILess k0 k \<Longrightarrow> map_assign m k v = m @ [(k, v)]"
  by (induction m) auto

text \<open>Equal trees answer every lookup alike.\<close>

lemma same_children_map_find:
  "same_children f src dst kvs kvs' \<Longrightarrow>
   (map_find kvs key = None \<and> map_find kvs' key = None)
   \<or> (\<exists>a a'. map_find kvs key = Some a \<and> map_find kvs' key = Some a' \<and> same_tree f src dst a a')"
proof (induction kvs arbitrary: kvs')
  case Nil
  then show ?case by (cases kvs') simp_all
next
  case (Cons kv kvs)
  obtain k a where kv: "kv = (k, a)" by (cases kv)
  from Cons.prems obtain k' a' rest where kvs': "kvs' = (k', a') # rest"
    by (cases kvs') (auto simp: kv)
  from Cons.prems kv kvs' have e: "fold_key k = fold_key k'" and t: "same_tree f src dst a a'"
    and r: "same_children f src dst kvs rest" by simp_all
  from e have c: "CILess k key = CILess k' key" "CILess key k = CILess key k'"
    using CILess_cong [of k k' key key] CILess_cong [of key key k k'] by simp_all
  from Cons.IH [OF r] t show ?case by (auto simp: kv kvs' c)
qed

lemma same_tree_label: "same_tree f src dst r d \<Longrightarrow> node_label src r = node_label dst d"
  by (cases f) simp_all

lemma same_tree_findNode_iter:
  "same_tree f src dst r d \<Longrightarrow>
   map_option (node_label src) (findNode_iter src r ps)
     = map_option (node_label dst) (findNode_iter dst d ps)"
proof (induction ps arbitrary: f r d)
  case Nil
  show ?case by simp
next
  case (Cons c cs)
  from Cons.prems obtain f' where f: "f = Suc f'" by (cases f) simp_all
  with Cons.prems have "same_children f' src dst (m_Nodes (node_at src r)) (m_Nodes (node_at dst d))"
    by simp
  from same_children_map_find [OF this, of "c_str c"]
  show ?case
  proof
    assume "map_find (m_Nodes (node_at src r)) (c_str c) = None
        \<and> map_find (m_Nodes (node_at dst d)) (c_str c) = None"
    then show ?thesis by (simp add: findNode_iter_Cons)
  next
    assume "\<exists>a a'. map_find (m_Nodes (node_at src r)) (c_str c) = Some a
        \<and> map_find (m_Nodes (node_at dst d)) (c_str c) = Some a' \<and> same_tree f' src dst a a'"
    then obtain a a' where s: "map_find (m_Nodes (node_at src r)) (c_str c) = Some a"
      and s': "map_find (m_Nodes (node_at dst d)) (c_str c) = Some a'"
      and t: "same_tree f' src dst a a'" by blast
    show ?thesis
    proof (cases "cs = []")
      case True
      with s s' same_tree_label [OF t] show ?thesis by (simp add: findNode_iter_Cons)
    next
      case False
      with s s' Cons.IH [OF t] show ?thesis by (simp add: findNode_iter_Cons)
    qed
  qed
qed

text \<open>
  A tree in the new arena stays the same tree when the arena changes elsewhere: outside
  a range of addresses that holds the tree and points into itself only.
\<close>

lemma same_tree_frame:
  assumes "\<forall>b. lo \<le> b \<and> b < hi \<longrightarrow>
        node_label dst' b = node_label dst b \<and> m_Nodes (node_at dst' b) = m_Nodes (node_at dst b)"
    and "\<forall>b. lo \<le> b \<and> b < hi \<longrightarrow>
        list_all (\<lambda>(k, a). lo \<le> a \<and> a < hi) (m_Nodes (node_at dst b))"
  shows "lo \<le> d \<Longrightarrow> d < hi \<Longrightarrow> same_tree f src dst r d \<Longrightarrow> same_tree f src dst' r d"
    and "list_all (\<lambda>(k, a). lo \<le> a \<and> a < hi) kvs' \<Longrightarrow>
         same_children f src dst kvs kvs' \<Longrightarrow> same_children f src dst' kvs kvs'"
  using assms
proof (induction f src dst r d and f src dst kvs kvs' rule: same_tree_same_children.induct)
  case (1 src dst r d)
  then show ?case by simp
next
  case (2 fuel src dst r d)
  from "2.prems"(1,2,4) have a: "node_label dst' d = node_label dst d"
    "m_Nodes (node_at dst' d) = m_Nodes (node_at dst d)" by simp_all
  from "2.prems"(1,2,5)
  have c: "list_all (\<lambda>(k, a). lo \<le> a \<and> a < hi) (m_Nodes (node_at dst d))" by simp
  from "2.prems"(3) have "same_children fuel src dst (m_Nodes (node_at src r)) (m_Nodes (node_at dst d))"
    by simp
  with c have "same_children fuel src dst' (m_Nodes (node_at src r)) (m_Nodes (node_at dst d))"
    using "2.prems"(4,5) by (rule "2.IH")
  with "2.prems"(3) a show ?case by simp
next
  case (3 fuel src dst)
  show ?case by simp
next
  case (4 fuel src dst k a kvs k' a' kvs')
  from "4.prems"(1) have r: "lo \<le> a'" "a' < hi" and rest: "list_all (\<lambda>(k, a). lo \<le> a \<and> a < hi) kvs'"
    by simp_all
  from "4.prems"(2) have t: "same_tree fuel src dst a a'" and c: "same_children fuel src dst kvs kvs'"
    and e: "fold_key k = fold_key k'" by simp_all
  have "same_tree fuel src dst' a a'"
    using r t "4.prems"(3,4) by (rule "4.IH"(1))
  moreover have "same_children fuel src dst' kvs kvs'"
    using rest c "4.prems"(3,4) by (rule "4.IH"(2))
  ultimately show ?case using e by simp
next
  case (5 fuel src dst kv' kvs')
  then show ?case by simp
next
  case (6 fuel src dst kv kvs)
  then show ?case by simp
qed

text \<open>
  A tree that \<^verbatim>\<open>numNodesRecursive\<close> can walk to some depth, \<open>copyTree\<close> can walk to
  that depth: it returns, or it throws.
\<close>

lemma copyTree_returns:
  "numNodesRecursive fuel src reference \<noteq> None \<Longrightarrow>
   copyTree fuel createEmpty src dst destination reference \<noteq> None"
  and "numNodes_loop fuel src kvs result \<noteq> None \<Longrightarrow>
   copyTree_loop fuel createEmpty src dst destination kvs \<noteq> None"
proof (induction fuel createEmpty src dst destination reference
         and fuel createEmpty src dst destination kvs
       arbitrary: and result rule: copyTree_copyTree_loop.induct)
  case (1 createEmpty src dst destination reference)
  then show ?case by simp
next
  case (2 fuel createEmpty src dst destination reference)
  from "2.prems" have "numNodes_loop fuel src (m_Nodes (node_at src reference))
      (numNodes (node_at src reference) + 1) \<noteq> None" by simp
  then show ?case using "2.IH" by simp
next
  case (3 fuel createEmpty src dst destination)
  show ?case by simp
next
  case (4 fuel createEmpty src dst destination k source kvs)
  from "4.prems" obtain r where n: "numNodesRecursive fuel src source = Some r"
    and l: "numNodes_loop fuel src kvs (result + r) \<noteq> None"
    by (auto split: option.splits)
  show ?case
  proof (cases "createSubNode dst [] 1 createEmpty")
    case (Inl e)
    then show ?thesis by simp
  next
    case (Inr p)
    note cs = this
    obtain newNode dst1 where p: "p = (newNode, dst1)" by (cases p)
    from n have "copyTree fuel createEmpty src
        (node_upd newNode (\<lambda>n. n \<lparr> m_Self := Some newNode \<rparr>) dst1) newNode source \<noteq> None"
      using "4.IH"(1) [OF cs p [symmetric]] by simp
    then obtain res where ct: "copyTree fuel createEmpty src
        (node_upd newNode (\<lambda>n. n \<lparr> m_Self := Some newNode \<rparr>) dst1) newNode source = Some res"
      by auto
    show ?thesis
    proof (cases res)
      case (Inl e)
      with cs p ct show ?thesis by simp
    next
      case (Inr dst2)
      from l "4.IH"(2) [OF cs p [symmetric] ct Inr refl refl]
      show ?thesis using cs p ct Inr by (simp add: Let_def)
    qed
  qed
qed

lemma range_mono:
  "list_all (\<lambda>(k, a). lo \<le> a \<and> a < hi) m \<Longrightarrow> lo' \<le> lo \<Longrightarrow> hi \<le> hi' \<Longrightarrow>
   list_all (\<lambda>(k, a :: nat). lo' \<le> a \<and> a < hi') m"
  unfolding list_all_iff by fastforce

text \<open>
  What \<open>copyTree\<close> builds: under the destination, which had no children, the same tree
  as under the reference, in nodes of its own.
\<close>

lemma copyTree_spec:
  assumes "wf_arena F src" and "keys_named src"
  shows "reference < length (shm_nodes src) \<Longrightarrow> destination < length (shm_nodes dst) \<Longrightarrow>
     m_Nodes (node_at dst destination) = [] \<Longrightarrow>
     copyTree fuel createEmpty src dst destination reference = Some (Inr dst') \<Longrightarrow>
     copy_frame dst destination dst' \<and> same_tree fuel src dst' reference destination
     \<and> list_all (\<lambda>(k, a). length (shm_nodes dst) \<le> a \<and> a < length (shm_nodes dst'))
          (m_Nodes (node_at dst' destination))
     \<and> m_Name (node_at dst' destination) = c_str (m_Name (node_at src reference))"
  and "list_all (\<lambda>(k, a). a < length (shm_nodes src)) kvs \<Longrightarrow>
     sorted_wrt CILess (map fst kvs) \<Longrightarrow>
     list_all (\<lambda>(k, a). fold_key k = fold_key (m_Name (node_at src a))) kvs \<Longrightarrow>
     (\<forall>k0\<in>fst ` set (m_Nodes (node_at dst destination)). \<forall>k\<in>fst ` set kvs. CILess k0 k) \<Longrightarrow>
     destination < length (shm_nodes dst) \<Longrightarrow>
     copyTree_loop fuel createEmpty src dst destination kvs = Some (Inr dst') \<Longrightarrow>
     copy_frame dst destination dst'
     \<and> (\<exists>M. node_at dst' destination
              = (node_at dst destination) \<lparr> m_Nodes := m_Nodes (node_at dst destination) @ M \<rparr>
            \<and> same_children fuel src dst' kvs M
            \<and> list_all (\<lambda>(k, a). length (shm_nodes dst) \<le> a \<and> a < length (shm_nodes dst')) M)"
  using assms
proof (induction fuel createEmpty src dst destination reference
         and fuel createEmpty src dst destination kvs
       arbitrary: dst' and dst' rule: copyTree_copyTree_loop.induct)
  case (1 createEmpty src dst destination reference)
  then show ?case by simp
next
  case (2 fuel createEmpty src dst destination reference)
  note wf = "2.prems"(5) and kn = "2.prems"(6)
  define dst1 where "dst1 = node_upd destination
          (\<lambda>n. n \<lparr> m_Flags := m_Flags (node_at src reference),
                   m_Data := m_Data (node_at src reference),
                   m_Name := c_str (m_Name (node_at src reference)) \<rparr>) dst"
  have at1: "node_at dst1 b = (if b = destination then
        (node_at dst destination) \<lparr> m_Flags := m_Flags (node_at src reference),
                   m_Data := m_Data (node_at src reference),
                   m_Name := c_str (m_Name (node_at src reference)) \<rparr>
      else node_at dst b)" for b
    using "2.prems"(2) by (simp add: dst1_def node_at_node_upd)
  have l1: "length (shm_nodes dst1) = length (shm_nodes dst)" by (simp add: dst1_def)
  from wf "2.prems"(1) have r: "wf_node F (length (shm_nodes src)) (node_at src reference)"
    by (rule wf_arena_nodeD)
  then have v: "list_all (\<lambda>(k, a). a < length (shm_nodes src)) (m_Nodes (node_at src reference))"
    and so: "sorted_wrt CILess (map fst (m_Nodes (node_at src reference)))"
    by (simp_all add: wf_node_def sorted_map_def)
  from "2.prems"(1) have "node_at src reference \<in> set (shm_nodes src)"
    by (simp add: node_at_def)
  with kn
  have n: "list_all (\<lambda>(k, a). fold_key k = fold_key (m_Name (node_at src a)))
      (m_Nodes (node_at src reference))"
    unfolding keys_named_def list_all_iff by blast
  have e: "\<forall>k0\<in>fst ` set (m_Nodes (node_at dst1 destination)).
      \<forall>k\<in>fst ` set (m_Nodes (node_at src reference)). CILess k0 k"
    using "2.prems"(3) by (simp add: at1)
  have d1: "destination < length (shm_nodes dst1)" using "2.prems"(2) by (simp add: l1)
  from "2.prems"(4) have l: "copyTree_loop fuel createEmpty src dst1 destination
      (m_Nodes (node_at src reference)) = Some (Inr dst')"
    by (simp add: dst1_def)
  have ih: "copy_frame dst1 destination dst'
     \<and> (\<exists>M. node_at dst' destination
              = (node_at dst1 destination) \<lparr> m_Nodes := m_Nodes (node_at dst1 destination) @ M \<rparr>
            \<and> same_children fuel src dst' (m_Nodes (node_at src reference)) M
            \<and> list_all (\<lambda>(k, a). length (shm_nodes dst1) \<le> a \<and> a < length (shm_nodes dst')) M)"
    using v so n e d1 l wf kn unfolding dst1_def by (rule "2.IH")
  then obtain M where M: "node_at dst' destination
              = (node_at dst1 destination) \<lparr> m_Nodes := m_Nodes (node_at dst1 destination) @ M \<rparr>"
    and sc: "same_children fuel src dst' (m_Nodes (node_at src reference)) M"
    and rg: "list_all (\<lambda>(k, a). length (shm_nodes dst1) \<le> a \<and> a < length (shm_nodes dst')) M"
    by blast
  from M "2.prems"(3) have M': "node_at dst' destination =
      (node_at dst destination) \<lparr> m_Flags := m_Flags (node_at src reference),
                   m_Data := m_Data (node_at src reference),
                   m_Name := c_str (m_Name (node_at src reference)), m_Nodes := M \<rparr>"
    by (simp add: at1)
  have "copy_frame dst destination dst'"
    using ih unfolding copy_frame_def l1 by (auto simp: at1)
  moreover have "same_tree (Suc fuel) src dst' reference destination"
    using sc by (simp add: M' node_label_def node_name_def c_str_idem)
  ultimately show ?case using rg by (simp add: M' l1)
next
  case (3 fuel createEmpty src dst destination)
  from "3.prems"(6) have eq: "dst' = dst" by simp
  have "copy_frame dst destination dst" by (auto simp: copy_frame_def)
  moreover have "node_at dst destination
      = (node_at dst destination) \<lparr> m_Nodes := m_Nodes (node_at dst destination) @ [] \<rparr>
      \<and> same_children fuel src dst [] []
      \<and> list_all (\<lambda>(k, a). length (shm_nodes dst) \<le> a \<and> a < length (shm_nodes dst)) []"
    by simp
  ultimately show ?case unfolding eq by blast
next
  case (4 fuel createEmpty src dst destination k source kvs)
  note wf = "4.prems"(7) and kn = "4.prems"(8)
  show ?case
  proof (cases "createSubNode dst [] 1 createEmpty")
    case (Inl e)
    with "4.prems"(6) show ?thesis by simp
  next
    case (Inr p)
    note cs = this
    obtain newNode dst1 where p: "p = (newNode, dst1)" by (cases p)
    let ?n0 = "DirectoryTree_ctor [] 1 None createEmpty"
    from Inr p have c: "construct_node dst ?n0 = Inr (newNode, dst1)"
      by (simp add: createSubNode_def)
    from c have nn: "newNode = length (shm_nodes dst)"
      and l1: "length (shm_nodes dst1) = Suc (length (shm_nodes dst))"
      by (auto simp: construct_node_Inr)
    have at1: "\<And>b. b \<le> length (shm_nodes dst) \<Longrightarrow>
        node_at dst1 b = (if b = length (shm_nodes dst) then ?n0 else node_at dst b)"
      using c by (rule node_at_construct)
    define dst1s where "dst1s = node_upd newNode (\<lambda>n. n \<lparr> m_Self := Some newNode \<rparr>) dst1"
    have l1s: "length (shm_nodes dst1s) = Suc (length (shm_nodes dst))"
      using l1 by (simp add: dst1s_def)
    have at1s: "node_at dst1s b = (if b = newNode then ?n0 \<lparr> m_Self := Some newNode \<rparr>
        else node_at dst b)" if "b \<le> length (shm_nodes dst)" for b
      using that nn l1 by (simp add: dst1s_def node_at_node_upd at1)
    have dn: "destination \<noteq> newNode" "destination < newNode" using "4.prems"(5) nn by simp_all
    from "4.prems"(1) have sv: "source < length (shm_nodes src)"
      and kv: "list_all (\<lambda>(k, a). a < length (shm_nodes src)) kvs" by simp_all
    from "4.prems"(2) have ks: "\<forall>k'\<in>fst ` set kvs. CILess k k'"
      and so: "sorted_wrt CILess (map fst kvs)" by auto
    from "4.prems"(3) have kname: "fold_key k = fold_key (m_Name (node_at src source))"
      and kn': "list_all (\<lambda>(k, a). fold_key k = fold_key (m_Name (node_at src a))) kvs"
      by simp_all
    have n1: "newNode < length (shm_nodes dst1s)" using nn l1s by simp
    have e1: "m_Nodes (node_at dst1s newNode) = []"
      using nn by (simp add: at1s DirectoryTree_ctor_def)
    from "4.prems"(6) cs p obtain res where
      ct0: "copyTree fuel createEmpty src dst1s newNode source = Some res"
      by (auto simp: dst1s_def split: option.splits)
    from "4.prems"(6) cs p ct0 obtain dst2 where res: "res = Inr dst2"
      by (cases res) (auto simp: dst1s_def)
    from ct0 res have ct: "copyTree fuel createEmpty src dst1s newNode source = Some (Inr dst2)"
      by simp
    have ih1: "copy_frame dst1s newNode dst2 \<and> same_tree fuel src dst2 source newNode
        \<and> list_all (\<lambda>(k, a). length (shm_nodes dst1s) \<le> a \<and> a < length (shm_nodes dst2))
             (m_Nodes (node_at dst2 newNode))
        \<and> m_Name (node_at dst2 newNode) = c_str (m_Name (node_at src source))"
      using sv n1 e1 ct wf kn unfolding dst1s_def by (rule "4.IH"(1) [OF cs p [symmetric]])
    then have f1: "copy_frame dst1s newNode dst2"
      and t1: "same_tree fuel src dst2 source newNode"
      and r1: "list_all (\<lambda>(k, a). length (shm_nodes dst1s) \<le> a \<and> a < length (shm_nodes dst2))
             (m_Nodes (node_at dst2 newNode))"
      and name: "m_Name (node_at dst2 newNode) = c_str (m_Name (node_at src source))"
      by simp_all
    from f1 have l2: "Suc (length (shm_nodes dst)) \<le> length (shm_nodes dst2)"
      by (simp add: copy_frame_def l1s)
    have at2: "node_at dst2 b = node_at dst b" if "b < length (shm_nodes dst)" for b
    proof -
      from that nn have "b < length (shm_nodes dst1s)" "b \<noteq> newNode" by (simp_all add: l1s)
      with f1 have "node_at dst2 b = node_at dst1s b" by (simp add: copy_frame_def)
      with that nn show ?thesis by (simp add: at1s)
    qed
    define M0 where "M0 = m_Nodes (node_at dst destination)"
    define nm where "nm = m_Name (node_at dst2 newNode)"
    have fk: "fold_key nm = fold_key k"
      by (simp add: nm_def name fold_key_c_str kname)
    have "\<forall>k0\<in>fst ` set M0. CILess k0 nm"
    proof
      fix k0 assume "k0 \<in> fst ` set M0"
      with "4.prems"(4) have "CILess k0 k" by (auto simp: M0_def)
      with fk show "CILess k0 nm" using CILess_cong [of k0 k0 nm k] by simp
    qed
    then have app: "map_assign M0 nm newNode = M0 @ [(nm, newNode)]"
      by (rule map_assign_append)
    define dst3 where "dst3 = node_upd destination
        (\<lambda>n. n \<lparr> m_Nodes := map_assign (m_Nodes n) (m_Name (node_at dst2 newNode)) newNode \<rparr>) dst2"
    define dst4 where "dst4 = node_upd newNode
        (\<lambda>n. n \<lparr> m_Parent := m_Self (node_at dst3 destination) \<rparr>) dst3"
    have l4: "length (shm_nodes dst4) = length (shm_nodes dst2)"
      by (simp add: dst3_def dst4_def)
    have at4: "node_at dst4 b =
        (if b = newNode then (node_at dst2 newNode) \<lparr> m_Parent := m_Self (node_at dst3 destination) \<rparr>
         else if b = destination then (node_at dst destination) \<lparr> m_Nodes := M0 @ [(nm, newNode)] \<rparr>
         else node_at dst2 b)" for b
      using dn l2 nn "4.prems"(5) at2 [of destination] app
      by (simp add: dst4_def dst3_def node_at_node_upd M0_def nm_def)
    from "4.prems"(6) cs p ct
    have lp: "copyTree_loop fuel createEmpty src dst4 destination kvs = Some (Inr dst')"
      by (simp add: dst1s_def dst3_def dst4_def Let_def)
    have e4: "\<forall>k0\<in>fst ` set (m_Nodes (node_at dst4 destination)). \<forall>k'\<in>fst ` set kvs. CILess k0 k'"
    proof (intro ballI)
      fix k0 k' assume k0: "k0 \<in> fst ` set (m_Nodes (node_at dst4 destination))"
        and k': "k' \<in> fst ` set kvs"
      from k0 dn have "k0 \<in> fst ` set M0 \<or> k0 = nm" by (auto simp: at4)
      then show "CILess k0 k'"
      proof
        assume "k0 \<in> fst ` set M0"
        with "4.prems"(4) k' show ?thesis by (auto simp: M0_def)
      next
        assume "k0 = nm"
        moreover from ks k' have "CILess k k'" by auto
        ultimately show ?thesis using fk CILess_cong [of nm k k' k'] by simp
      qed
    qed
    have d4: "destination < length (shm_nodes dst4)" using "4.prems"(5) l2 l4 by simp
    have ih2: "copy_frame dst4 destination dst'
      \<and> (\<exists>M. node_at dst' destination
              = (node_at dst4 destination) \<lparr> m_Nodes := m_Nodes (node_at dst4 destination) @ M \<rparr>
            \<and> same_children fuel src dst' kvs M
            \<and> list_all (\<lambda>(k, a). length (shm_nodes dst4) \<le> a \<and> a < length (shm_nodes dst')) M)"
      using kv so kn' e4 d4 lp wf kn
      by (rule "4.IH"(2) [OF cs p [symmetric] ct0 [unfolded dst1s_def] res dst3_def dst4_def])
    then obtain M' where f2: "copy_frame dst4 destination dst'"
      and M': "node_at dst' destination
              = (node_at dst4 destination) \<lparr> m_Nodes := m_Nodes (node_at dst4 destination) @ M' \<rparr>"
      and sc: "same_children fuel src dst' kvs M'"
      and rg: "list_all (\<lambda>(k, a). length (shm_nodes dst4) \<le> a \<and> a < length (shm_nodes dst')) M'"
      by blast
    from f2 have l': "length (shm_nodes dst2) \<le> length (shm_nodes dst')"
      by (simp add: copy_frame_def l4)
    have at': "node_at dst' b = node_at dst4 b" if "b < length (shm_nodes dst2)" "b \<noteq> destination" for b
      using f2 that by (simp add: copy_frame_def l4)
    have agree: "\<forall>b. newNode \<le> b \<and> b < length (shm_nodes dst2) \<longrightarrow>
        node_label dst' b = node_label dst2 b \<and> m_Nodes (node_at dst' b) = m_Nodes (node_at dst2 b)"
      using dn by (auto simp: at' at4 node_label_def node_name_def)
    have closed: "\<forall>b. newNode \<le> b \<and> b < length (shm_nodes dst2) \<longrightarrow>
        list_all (\<lambda>(k, a). newNode \<le> a \<and> a < length (shm_nodes dst2)) (m_Nodes (node_at dst2 b))"
    proof (intro allI impI)
      fix b assume b: "newNode \<le> b \<and> b < length (shm_nodes dst2)"
      show "list_all (\<lambda>(k, a). newNode \<le> a \<and> a < length (shm_nodes dst2)) (m_Nodes (node_at dst2 b))"
      proof (cases "b = newNode")
        case True
        with r1 show ?thesis by (auto intro: range_mono simp: l1s nn)
      next
        case False
        with b nn have "length (shm_nodes dst1s) \<le> b \<and> b < length (shm_nodes dst2)"
          by (simp add: l1s)
        with f1 have "list_all (\<lambda>(k, a). length (shm_nodes dst1s) \<le> a \<and> a < length (shm_nodes dst2))
            (m_Nodes (node_at dst2 b))"
          by (simp add: copy_frame_def)
        then show ?thesis by (rule range_mono) (simp_all add: l1s nn)
      qed
    qed
    have t': "same_tree fuel src dst' source newNode"
      using _ _ t1
    proof (rule same_tree_frame(1) [OF agree closed])
      show "newNode \<le> newNode" by simp
      show "newNode < length (shm_nodes dst2)" using l2 nn by simp
    qed
    define M where "M = (nm, newNode) # M'"
    have nd: "node_at dst' destination
        = (node_at dst destination) \<lparr> m_Nodes := m_Nodes (node_at dst destination) @ M \<rparr>"
      using dn by (simp add: M' at4 M_def M0_def)
    have scM: "same_children fuel src dst' ((k, source) # kvs) M"
      using t' sc fk by (simp add: M_def)
    have rgM: "list_all (\<lambda>(k, a). length (shm_nodes dst) \<le> a \<and> a < length (shm_nodes dst')) M"
    proof -
      have "list_all (\<lambda>(k, a). length (shm_nodes dst) \<le> a \<and> a < length (shm_nodes dst')) M'"
        using rg by (rule range_mono) (use l2 l4 in simp_all)
      with nn l2 l' show ?thesis by (simp add: M_def)
    qed
    have frame: "copy_frame dst destination dst'"
      unfolding copy_frame_def
    proof (intro conjI allI impI)
      show "length (shm_nodes dst) \<le> length (shm_nodes dst')" using l2 l' by simp
    next
      fix b assume "b < length (shm_nodes dst)" and "b \<noteq> destination"
      with nn l2 show "node_at dst' b = node_at dst b"
        by (simp add: at' at4 at2)
    next
      fix b assume b: "length (shm_nodes dst) \<le> b \<and> b < length (shm_nodes dst')"
      show "list_all (\<lambda>(k, a). length (shm_nodes dst) \<le> a \<and> a < length (shm_nodes dst'))
          (m_Nodes (node_at dst' b))"
      proof (cases "b < length (shm_nodes dst2)")
        case True
        with b nn agree closed
        have "list_all (\<lambda>(k, a). newNode \<le> a \<and> a < length (shm_nodes dst2)) (m_Nodes (node_at dst' b))"
          by simp
        then show ?thesis by (rule range_mono) (use nn l' in simp_all)
      next
        case False
        with b f2 have "list_all (\<lambda>(k, a). length (shm_nodes dst4) \<le> a \<and> a < length (shm_nodes dst'))
            (m_Nodes (node_at dst' b))"
          by (simp add: copy_frame_def l4)
        then show ?thesis by (rule range_mono) (use l2 l4 in simp_all)
      qed
    qed
    from frame nd scM rgM show ?thesis by blast
  qed
qed

text \<open>
  C5. \<^verbatim>\<open>copyTree(destination, reference)\<close>, called as the migration calls it with a
  destination that has no children yet, on a source arena that is well formed and files
  every node under its own name, and with the depth that a walk of the source tree needs:
  it returns, and when it returns without \<^verbatim>\<open>bad_alloc\<close> the tree under the destination is
  the same tree as the one under the reference: every path of components finds a node
  in the one exactly when it finds one in the other, and the two nodes have the same
  name, the same flags and the same payload. The nodes that the destination arena held
  before are as they were.
\<close>

theorem C5_copyTree_structural_equality:
  assumes "wf_arena F src" and "keys_named src"
    and "reference < length (shm_nodes src)"
    and "destination < length (shm_nodes dst)"
    and "m_Nodes (node_at dst destination) = []"
    and "numNodesRecursive fuel src reference \<noteq> None"
  shows "(\<exists>r. copyTree fuel createEmpty src dst destination reference = Some r)
    \<and> (\<forall>dst'. copyTree fuel createEmpty src dst destination reference = Some (Inr dst') \<longrightarrow>
          same_tree fuel src dst' reference destination
          \<and> (\<forall>ps. map_option (node_label dst') (findNode_iter dst' destination ps)
                 = map_option (node_label src) (findNode_iter src reference ps))
          \<and> copy_frame dst destination dst')"
proof (intro conjI allI impI)
  from assms(6) have "copyTree fuel createEmpty src dst destination reference \<noteq> None"
    by (rule copyTree_returns(1))
  then show "\<exists>r. copyTree fuel createEmpty src dst destination reference = Some r" by blast
next
  fix dst' assume c: "copyTree fuel createEmpty src dst destination reference = Some (Inr dst')"
  from copyTree_spec(1) [OF assms(1) assms(2) assms(3) assms(4) assms(5) c]
  show t: "same_tree fuel src dst' reference destination"
    and "copy_frame dst destination dst'" by simp_all
  fix ps
  from t show "map_option (node_label dst') (findNode_iter dst' destination ps)
      = map_option (node_label src) (findNode_iter src reference ps)"
    by (rule same_tree_findNode_iter [symmetric])
qed

text \<open>
  The tree of \<^verbatim>\<open>addFile("a/b", 7)\<close> and \<^verbatim>\<open>addFile("c", 8)\<close>, copied under the root of a
  new arena: the copy has \<^verbatim>\<open>b\<close> with the payload 7 at \<^verbatim>\<open>A/B\<close>.
\<close>

theorem C5_copyTree_structural_equality_witness:
  "\<exists>c D meta dst'.
      build (Suc 0) (0::int) ''svc'' 8 [AddFile ''a/b'' 7 0 True, AddFile ''c'' 8 0x10 True]
        = Some (Inr c)
    \<and> TreeMeta_ctor 0 \<lparr> get_size = 8, shm_nodes = [], shm_meta = None \<rparr> = Inr (D, meta)
    \<and> copyTree (Suc (Suc (Suc 0))) 0 (m_SHM c) D (tree meta) (tree (m_TreeMeta c)) = Some (Inr dst')
    \<and> same_tree (Suc (Suc (Suc 0))) (m_SHM c) dst' (tree (m_TreeMeta c)) (tree meta)
    \<and> map_option (node_label dst') (findNode_iter dst' (tree meta) [''A'', ''B''])
        = Some (''b'', 0, 7)
    \<and> map_option (node_label dst') (findNode_iter dst' (tree meta) [''c''])
        = Some (''c'', 0x10, 8)
    \<and> length (shm_nodes dst') = 4"
proof -
  have "\<exists>c D meta.
      build (Suc 0) (0::int) ''svc'' 8 [AddFile ''a/b'' 7 0 True, AddFile ''c'' 8 0x10 True]
        = Some (Inr c)
    \<and> TreeMeta_ctor 0 \<lparr> get_size = 8, shm_nodes = [], shm_meta = None \<rparr> = Inr (D, meta)
    \<and> keys_named (m_SHM c)
    \<and> tree (m_TreeMeta c) < length (shm_nodes (m_SHM c))
    \<and> tree meta < length (shm_nodes D)
    \<and> m_Nodes (node_at D (tree meta)) = []
    \<and> numNodesRecursive (Suc (Suc (Suc 0))) (m_SHM c) (tree (m_TreeMeta c)) \<noteq> None
    \<and> map_option (node_label (m_SHM c)) (findNode_iter (m_SHM c) (tree (m_TreeMeta c)) [''A'', ''B''])
        = Some (''b'', 0, 7)
    \<and> map_option (node_label (m_SHM c)) (findNode_iter (m_SHM c) (tree (m_TreeMeta c)) [''c''])
        = Some (''c'', 0x10, 8)
    \<and> (\<exists>dst'. copyTree (Suc (Suc (Suc 0))) 0 (m_SHM c) D (tree meta) (tree (m_TreeMeta c))
          = Some (Inr dst') \<and> length (shm_nodes dst') = 4)"
    by (simp add: tree_eval keys_named_def fold_key_def node_label_def node_name_def)
  then obtain c D meta dst' where
    b: "build (Suc 0) (0::int) ''svc'' 8 [AddFile ''a/b'' 7 0 True, AddFile ''c'' 8 0x10 True]
        = Some (Inr c)"
    and m: "TreeMeta_ctor 0 \<lparr> get_size = 8, shm_nodes = [], shm_meta = None \<rparr> = Inr (D, meta)"
    and kn: "keys_named (m_SHM c)"
    and r: "tree (m_TreeMeta c) < length (shm_nodes (m_SHM c))"
    and d: "tree meta < length (shm_nodes D)"
    and e: "m_Nodes (node_at D (tree meta)) = []"
    and n: "numNodesRecursive (Suc (Suc (Suc 0))) (m_SHM c) (tree (m_TreeMeta c)) \<noteq> None"
    and f1: "map_option (node_label (m_SHM c)) (findNode_iter (m_SHM c) (tree (m_TreeMeta c)) [''A'', ''B''])
        = Some (''b'', 0, 7)"
    and f2: "map_option (node_label (m_SHM c)) (findNode_iter (m_SHM c) (tree (m_TreeMeta c)) [''c''])
        = Some (''c'', 0x10, 8)"
    and ct: "copyTree (Suc (Suc (Suc 0))) 0 (m_SHM c) D (tree meta) (tree (m_TreeMeta c))
          = Some (Inr dst')"
    and l: "length (shm_nodes dst') = 4"
    by blast
  have "list_all (op_flags (\<lambda>_. True)) [AddFile ''a/b'' (7::int) 0 True, AddFile ''c'' 8 0x10 True]"
    by simp
  then have "wf_container (\<lambda>_. True) c"
    using b by (rule build_wf [where F = "\<lambda>_. True", OF TrueI TrueI])
  then have wf: "wf_arena (\<lambda>_. True) (m_SHM c)" by (simp add: wf_container_def)
  from C5_copyTree_structural_equality [OF wf kn r d e n, of 0, THEN conjunct2, THEN spec,
      THEN mp, OF ct]
  have t: "same_tree (Suc (Suc (Suc 0))) (m_SHM c) dst' (tree (m_TreeMeta c)) (tree meta)"
    and q: "\<And>ps. map_option (node_label dst') (findNode_iter dst' (tree meta) ps)
                 = map_option (node_label (m_SHM c)) (findNode_iter (m_SHM c) (tree (m_TreeMeta c)) ps)"
    by simp_all
  from q [of "[''A'', ''B'']"] f1
  have g1: "map_option (node_label dst') (findNode_iter dst' (tree meta) [''A'', ''B''])
        = Some (''b'', 0, 7)" by simp
  from q [of "[''c'']"] f2
  have g2: "map_option (node_label dst') (findNode_iter dst' (tree meta) [''c''])
        = Some (''c'', 0x10, 8)" by simp
  from b m ct t g1 g2 l show ?thesis by blast
qed

section \<open>The flags of the nodes\<close>

lemma asks_no_dummy_file_op_flags:
  "asks_no_dummy_file x \<Longrightarrow> op_flags dummy_implies_directory x"
proof (cases x)
  case (AddDirectory name data flags overwrite)
  have "(flags OR FLAG_DIRECTORY) AND FLAG_DIRECTORY = FLAG_DIRECTORY"
    by (simp add: word_bw_comms word_ao_absorbs)
  then show ?thesis
    by (simp add: AddDirectory dummy_implies_directory_def FLAG_DIRECTORY_def)
qed simp_all

text \<open>
  C6, as stated, fails: the flags of \<^verbatim>\<open>addFile\<close> go into the new node as they are, so
  \<^verbatim>\<open>addFile("f", 1, FLAG_DUMMY)\<close> makes a node that has DUMMY and has not DIRECTORY.
\<close>

theorem C6_addFile_dummy_counterexample:
  "(case build (Suc 0) (0::int) ''svc'' 16 [AddFile ''f'' 1 FLAG_DUMMY True] of
      Some (Inr c) \<Rightarrow>
        (case findNode (m_SHM c) (tree (m_TreeMeta c)) ''f'' of
           Some a \<Rightarrow> hasFlag (node_at (m_SHM c) a) FLAG_DUMMY
                      \<and> \<not> hasFlag (node_at (m_SHM c) a) FLAG_DIRECTORY
         | None \<Rightarrow> False)
    | _ \<Rightarrow> False)"
  by (simp add: tree_eval)

text \<open>
  C6, amended: after any sequence of \<^verbatim>\<open>addFile\<close>, \<^verbatim>\<open>addDirectory\<close>, \<^verbatim>\<open>clear\<close> and
  \<^verbatim>\<open>erase\<close> on a new container, in which no \<^verbatim>\<open>addFile\<close> is given flags with DUMMY and
  without DIRECTORY, every node of the arena that has the DUMMY flag has the DIRECTORY
  flag, whatever migrations the insertions went through.
\<close>

theorem C6_dummy_implies_directory:
  assumes "list_all asks_no_dummy_file ops"
  shows "case build fuel createEmpty SHMName sz ops of
           Some (Inr c) \<Rightarrow>
             list_all (\<lambda>n. hasFlag n FLAG_DUMMY \<longrightarrow> hasFlag n FLAG_DIRECTORY)
               (shm_nodes (m_SHM c))
         | _ \<Rightarrow> True"
proof (cases "build fuel createEmpty SHMName sz ops")
  case None
  then show ?thesis by simp
next
  case (Some res)
  show ?thesis
  proof (cases res)
    case (Inl e)
    with Some show ?thesis by simp
  next
    case (Inr c)
    have f1: "dummy_implies_directory 1" and f3: "dummy_implies_directory 3"
      by (simp_all add: dummy_implies_directory_def FLAG_DUMMY_def FLAG_DIRECTORY_def)
    from assms have o: "list_all (op_flags dummy_implies_directory) ops"
      by (auto simp: list_all_iff intro: asks_no_dummy_file_op_flags)
    from Some Inr have b: "build fuel createEmpty SHMName sz ops = Some (Inr c)" by simp
    have "wf_container dummy_implies_directory c"
      by (rule build_wf [where F = dummy_implies_directory, OF f1 f3 o b])
    then have "list_all (\<lambda>n. dummy_implies_directory (m_Flags n)) (shm_nodes (m_SHM c))"
      by (simp add: wf_container_def wf_arena_def wf_node_def list_all_iff)
    then have "list_all (\<lambda>n. hasFlag n FLAG_DUMMY \<longrightarrow> hasFlag n FLAG_DIRECTORY)
        (shm_nodes (m_SHM c))"
      by (simp add: dummy_implies_directory_def hasFlag_def)
    with Some Inr show ?thesis by simp
  qed
qed

theorem C6_dummy_implies_directory_witness:
  "list_all asks_no_dummy_file
     [AddDirectory ''d'' (1::int) FLAG_DUMMY True, AddFile ''a/b'' 2 0 True, Erase 0 ''d'',
      AddFile ''a/c'' 3 FLAG_DIRECTORY True, Clear, AddFile ''x/y'' 4 0 False]
   \<and> (case build (Suc 0) (0::int) ''svc'' 16
          [AddDirectory ''d'' 1 FLAG_DUMMY True, AddFile ''a/b'' 2 0 True, Erase 0 ''d'',
           AddFile ''a/c'' 3 FLAG_DIRECTORY True, Clear, AddFile ''x/y'' 4 0 False] of
        Some (Inr c) \<Rightarrow>
          list_all (\<lambda>n. hasFlag n FLAG_DUMMY \<longrightarrow> hasFlag n FLAG_DIRECTORY) (shm_nodes (m_SHM c))
          \<and> length (shm_nodes (m_SHM c)) = 7
      | _ \<Rightarrow> False)"
proof -
  let ?ops = "[AddDirectory ''d'' (1::int) FLAG_DUMMY True, AddFile ''a/b'' 2 0 True, Erase 0 ''d'',
      AddFile ''a/c'' 3 FLAG_DIRECTORY True, Clear, AddFile ''x/y'' 4 0 False]"
  have h: "list_all asks_no_dummy_file ?ops"
    by (simp add: dummy_implies_directory_def FLAG_DUMMY_def FLAG_DIRECTORY_def)
  have "\<exists>c. build (Suc 0) (0::int) ''svc'' 16 ?ops = Some (Inr c)
      \<and> length (shm_nodes (m_SHM c)) = 7"
    by (simp add: tree_eval)
  then obtain c where b: "build (Suc 0) (0::int) ''svc'' 16 ?ops = Some (Inr c)"
    and l: "length (shm_nodes (m_SHM c)) = 7" by blast
  from C6_dummy_implies_directory [OF h, of "Suc 0" 0 "''svc''" 16] b l
  have "case build (Suc 0) (0::int) ''svc'' 16 ?ops of
        Some (Inr c) \<Rightarrow>
          list_all (\<lambda>n. hasFlag n FLAG_DUMMY \<longrightarrow> hasFlag n FLAG_DIRECTORY) (shm_nodes (m_SHM c))
          \<and> length (shm_nodes (m_SHM c)) = 7
      | _ \<Rightarrow> False"
    by simp
  with h show ?thesis by blast
qed

section \<open>Search by pattern\<close>

lemmas find_eval = find_pattern_def find_first_of_def find_last_of_def

lemma map_option_append:
  "map_option ((@) (xs @ ys)) r = map_option ((@) xs) (map_option ((@) ys) r)"
  by (cases r) simp_all

lemma nth_of_map: "map f xs = ys \<Longrightarrow> i < length ys \<Longrightarrow> f (xs ! i) = ys ! i"
  by auto

text \<open>What a search finds is put behind what the output already holds.\<close>

lemma findLocal_loop_acc:
  assumes "\<And>a out p. findLocal pm fuel shm a out p
             = map_option ((@) out) (findLocal pm fuel shm a [] p)"
  shows "findLocal_loop pm fuel shm kvs out p
           = map_option ((@) out) (findLocal_loop pm fuel shm kvs [] p)"
proof (induction kvs arbitrary: out)
  case Nil
  show ?case by simp
next
  case (Cons kv kvs)
  obtain k c where kv: "kv = (k, c)" by (cases kv)
  note f = assms [of c out]
  have l: "findLocal_loop pm fuel shm kvs (out @ r) p
      = map_option ((@) out) (findLocal_loop pm fuel shm kvs r p)" for r
  proof -
    have "findLocal_loop pm fuel shm kvs (out @ r) p
        = map_option ((@) (out @ r)) (findLocal_loop pm fuel shm kvs [] p)"
      by (rule Cons.IH)
    also have "\<dots> = map_option ((@) out) (map_option ((@) r) (findLocal_loop pm fuel shm kvs [] p))"
      by (rule map_option_append)
    also have "map_option ((@) r) (findLocal_loop pm fuel shm kvs [] p)
        = findLocal_loop pm fuel shm kvs r p"
      by (rule Cons.IH [symmetric])
    finally show ?thesis .
  qed
  show ?case
  proof (cases "length p > 1 \<and> p ! 0 = CHR ''*'' \<and> (p ! 1 = CHR ''/'' \<or> p ! 1 = CHR 0x5C)
         \<and> isDirectory (node_at shm c)")
    case True
    have e: "\<And>acc. findLocal_loop pm fuel shm ((k, c) # kvs) acc p =
        (case findLocal pm fuel shm c acc (drop 1 p) of
           None \<Rightarrow> None
         | Some out \<Rightarrow> findLocal_loop pm fuel shm kvs out p)"
      unfolding findLocal_loop.simps(2) if_P [OF True] ..
    show ?thesis
    proof (cases "findLocal pm fuel shm c [] (drop 1 p)")
      case None
      then have "findLocal pm fuel shm c out (drop 1 p) = None"
        by (subst assms) simp
      with None show ?thesis unfolding kv e by simp
    next
      case (Some r)
      then have "findLocal pm fuel shm c out (drop 1 p) = Some (out @ r)"
        by (subst assms) simp
      with Some show ?thesis unfolding kv e by (simp add: l)
    qed
  next
    case False
    have e: "\<And>acc. findLocal_loop pm fuel shm ((k, c) # kvs) acc p =
        (case pm (c_str (m_Name (node_at shm c))) (c_str p) of
              None \<Rightarrow> findLocal_loop pm fuel shm kvs acc p
            | Some remainder \<Rightarrow>
                (let out1 = (if remainder = [] \<or> remainder = ''*'' then acc @ [c] else acc)
                 in if isDirectory (node_at shm c)
                    then (case findLocal pm fuel shm c out1 remainder of
                            None \<Rightarrow> None
                          | Some out2 \<Rightarrow> findLocal_loop pm fuel shm kvs out2 p)
                    else findLocal_loop pm fuel shm kvs out1 p))"
      unfolding findLocal_loop.simps(2) if_not_P [OF False] ..
    show ?thesis
    proof (cases "pm (c_str (m_Name (node_at shm c))) (c_str p)")
      case None
      show ?thesis unfolding kv e None option.case by (rule Cons.IH)
    next
      case (Some remainder)
      define add where "add = (if remainder = [] \<or> remainder = ''*'' then [c] else [])"
      have e': "findLocal_loop pm fuel shm ((k, c) # kvs) acc p =
          (if isDirectory (node_at shm c)
           then (case findLocal pm fuel shm c (acc @ add) remainder of
                   None \<Rightarrow> None
                 | Some out2 \<Rightarrow> findLocal_loop pm fuel shm kvs out2 p)
           else findLocal_loop pm fuel shm kvs (acc @ add) p)" for acc
        unfolding e Some by (simp add: Let_def add_def)
      show ?thesis
      proof (cases "isDirectory (node_at shm c)")
        case d: True
        show ?thesis
        proof (cases "findLocal pm fuel shm c [] remainder")
          case None
          then have "findLocal pm fuel shm c (out @ add) remainder = None"
            "findLocal pm fuel shm c ([] @ add) remainder = None"
            by (subst assms, simp)+
          with d show ?thesis unfolding kv e' by simp
        next
          case r: (Some r)
          then have "findLocal pm fuel shm c (out @ add) remainder = Some (out @ add @ r)"
            "findLocal pm fuel shm c ([] @ add) remainder = Some (add @ r)"
            by (subst assms, simp)+
          with d show ?thesis unfolding kv e' by (simp add: l)
        qed
      next
        case d: False
        then show ?thesis unfolding kv e' by (simp add: l)
      qed
    qed
  qed
qed

lemma findLocal_acc:
  "findLocal pm fuel shm a out p = map_option ((@) out) (findLocal pm fuel shm a [] p)"
proof (induction fuel arbitrary: a out p)
  case 0
  show ?case by simp
next
  case (Suc fuel)
  show ?case unfolding findLocal.simps by (rule findLocal_loop_acc) (rule Suc.IH)
qed

text \<open>The search with a star and a separator at the head of the pattern, child by child.\<close>

lemma findLocal_loop_star:
  assumes "is_separator sep"
  shows "findLocal_loop pm fuel shm kvs [] (CHR ''*'' # sep # rest) =
     map_option concat (those (map
        (\<lambda>(k, c). if isDirectory (node_at shm c)
                  then findLocal pm fuel shm c [] (sep # rest)
                  else Some (if full_match pm (m_Name (node_at shm c)) (CHR ''*'' # sep # rest)
                             then [c] else []))
        kvs))"
proof (induction kvs)
  case Nil
  show ?case by simp
next
  case (Cons kv kvs)
  obtain k c where kv: "kv = (k, c)" by (cases kv)
  let ?p = "CHR ''*'' # sep # rest"
  have l: "findLocal_loop pm fuel shm kvs r ?p
      = map_option ((@) r) (findLocal_loop pm fuel shm kvs [] ?p)" for r
    by (rule findLocal_loop_acc) (rule findLocal_acc)
  have s: "sep = CHR ''/'' \<or> sep = CHR 0x5C" using assms by (simp add: is_separator_def)
  show ?case
  proof (cases "isDirectory (node_at shm c)")
    case True
    show ?thesis
    proof (cases "findLocal pm fuel shm c [] (sep # rest)")
      case None
      with True s show ?thesis unfolding kv by auto
    next
      case (Some r)
      with True s show ?thesis
        unfolding kv using l [of r] Cons.IH
        by (auto simp: option.map_comp comp_def split: option.splits)
    qed
  next
    case False
    show ?thesis
    proof (cases "pm (c_str (m_Name (node_at shm c))) (c_str ?p)")
      case None
      with False show ?thesis
        unfolding kv using Cons.IH
        by (auto simp: full_match_def option.map_comp comp_def split: option.splits)
    next
      case (Some remainder)
      with False show ?thesis
        unfolding kv using l [of "[c]"] Cons.IH
        by (auto simp: full_match_def Let_def option.map_comp comp_def split: option.splits)
    qed
  qed
qed

text \<open>The tree of the scenario: the nodes, their children, names and kinds.\<close>

lemma find_scenario_tree:
  "\<exists>c. build (Suc 0) e ''svc'' 16
           [AddFile ''a/b/c1.txt'' d1 0 True, AddFile ''a/b/c2.txt'' d2 0 True,
            AddFile ''a/d/e.txt'' d3 0 True] = Some (Inr c)
      \<and> tree (m_TreeMeta c) = 0
      \<and> map (\<lambda>i. m_Nodes (node_at (m_SHM c) i)) [0, 1, 2, 3, 4, 5, 6]
            = [[(''a'', 1)], [(''b'', 2), (''d'', 5)], [(''c1.txt'', 3), (''c2.txt'', 4)], [], [],
               [(''e.txt'', 6)], []]
      \<and> map (\<lambda>i. m_Name (node_at (m_SHM c) i)) [1, 2, 3, 4, 5, 6]
            = [''a'', ''b'', ''c1.txt'', ''c2.txt'', ''d'', ''e.txt'']
      \<and> map (\<lambda>i. isDirectory (node_at (m_SHM c) i)) [1, 2, 3, 4, 5, 6]
            = [True, True, False, False, True, False]
      \<and> findNode (m_SHM c) (tree (m_TreeMeta c)) ''a/b/c1.txt'' = Some 3
      \<and> findNode (m_SHM c) (tree (m_TreeMeta c)) ''a/b/c2.txt'' = Some 4
      \<and> findNode (m_SHM c) (tree (m_TreeMeta c)) ''a/d/e.txt'' = Some 6
      \<and> findNode (m_SHM c) (tree (m_TreeMeta c)) ''a/b'' = Some 2
      \<and> findNode (m_SHM c) (tree (m_TreeMeta c)) ''a'' = Some 1"
proof -
    have "\<exists>c. build (Suc 0) e ''svc'' 16
           [AddFile ''a/b/c1.txt'' d1 0 True, AddFile ''a/b/c2.txt'' d2 0 True,
            AddFile ''a/d/e.txt'' d3 0 True] = Some (Inr c)
        \<and> tree (m_TreeMeta c) = 0
        \<and> map m_Nodes (shm_nodes (m_SHM c))
            = [[(''a'', 1)], [(''b'', 2), (''d'', 5)], [(''c1.txt'', 3), (''c2.txt'', 4)], [], [],
               [(''e.txt'', 6)], []]
        \<and> map m_Name (shm_nodes (m_SHM c))
            = ['''', ''a'', ''b'', ''c1.txt'', ''c2.txt'', ''d'', ''e.txt'']
        \<and> map isDirectory (shm_nodes (m_SHM c))
            = [True, True, True, False, False, True, False]"
      by (simp add: tree_eval)
    then obtain c where b: "build (Suc 0) e ''svc'' 16
           [AddFile ''a/b/c1.txt'' d1 0 True, AddFile ''a/b/c2.txt'' d2 0 True,
            AddFile ''a/d/e.txt'' d3 0 True] = Some (Inr c)"
      and r: "tree (m_TreeMeta c) = 0"
      and n0: "map m_Nodes (shm_nodes (m_SHM c))
            = [[(''a'', 1)], [(''b'', 2), (''d'', 5)], [(''c1.txt'', 3), (''c2.txt'', 4)], [], [],
               [(''e.txt'', 6)], []]"
      and m0: "map m_Name (shm_nodes (m_SHM c))
            = ['''', ''a'', ''b'', ''c1.txt'', ''c2.txt'', ''d'', ''e.txt'']"
      and d0: "map isDirectory (shm_nodes (m_SHM c))
            = [True, True, True, False, False, True, False]"
      by (elim exE conjE) (rule that)
    have n: "map (\<lambda>i. m_Nodes (node_at (m_SHM c) i)) [0, 1, 2, 3, 4, 5, 6]
            = [[(''a'', 1)], [(''b'', 2), (''d'', 5)], [(''c1.txt'', 3), (''c2.txt'', 4)], [], [],
               [(''e.txt'', 6)], []]"
      using nth_of_map [OF n0, of 0] nth_of_map [OF n0, of 1] nth_of_map [OF n0, of 2]
        nth_of_map [OF n0, of 3] nth_of_map [OF n0, of 4] nth_of_map [OF n0, of 5]
        nth_of_map [OF n0, of 6]
      by (simp add: node_at_def)
    have m: "map (\<lambda>i. m_Name (node_at (m_SHM c) i)) [1, 2, 3, 4, 5, 6]
            = [''a'', ''b'', ''c1.txt'', ''c2.txt'', ''d'', ''e.txt'']"
      using nth_of_map [OF m0, of 1] nth_of_map [OF m0, of 2]
        nth_of_map [OF m0, of 3] nth_of_map [OF m0, of 4] nth_of_map [OF m0, of 5]
        nth_of_map [OF m0, of 6]
      by (simp add: node_at_def)
    have d: "map (\<lambda>i. isDirectory (node_at (m_SHM c) i)) [1, 2, 3, 4, 5, 6]
            = [True, True, False, False, True, False]"
      using nth_of_map [OF d0, of 1] nth_of_map [OF d0, of 2]
        nth_of_map [OF d0, of 3] nth_of_map [OF d0, of 4] nth_of_map [OF d0, of 5]
        nth_of_map [OF d0, of 6]
      by (simp add: node_at_def)
    have f: "findNode (m_SHM c) (tree (m_TreeMeta c)) ''a/b/c1.txt'' = Some 3"
      "findNode (m_SHM c) (tree (m_TreeMeta c)) ''a/b/c2.txt'' = Some 4"
      "findNode (m_SHM c) (tree (m_TreeMeta c)) ''a/d/e.txt'' = Some 6"
      "findNode (m_SHM c) (tree (m_TreeMeta c)) ''a/b'' = Some 2"
      "findNode (m_SHM c) (tree (m_TreeMeta c)) ''a'' = Some 1"
      using r n by (simp_all add: findNode_def path_components_def is_separator_def c_str_def
          CILess_def tolower_ascii_def)
    from b r n m d f show ?thesis by (intro exI [of _ c] conjI)
qed

text \<open>
  C7. After \<^verbatim>\<open>a/b/c1.txt\<close>, \<^verbatim>\<open>a/b/c2.txt\<close> and \<^verbatim>\<open>a/d/e.txt\<close> have been added to an
  empty tree, \<^verbatim>\<open>find("a/b/*.txt")\<close> returns, for every matcher \<open>pm\<close>, those of the nodes
  of \<^verbatim>\<open>a/b/c1.txt\<close> and \<^verbatim>\<open>a/b/c2.txt\<close> whose names the matcher matches against
  \<^verbatim>\<open>*.txt\<close>, in this order, which is the order of the keys, and nothing else; so it
  returns exactly these two nodes when the matcher matches both names. A star and a
  separator at the head of a pattern stand for one directory level: the search below a
  node finds, child by child, what the search of each directory child with the pattern
  after the star finds, and the other children that the matcher matches. In the tree of
  the scenario \<^verbatim>\<open>find("a/*/e.txt")\<close> returns those of the three files, one level below
  \<^verbatim>\<open>a\<close>, that the matcher matches against \<^verbatim>\<open>/e.txt\<close>, and \<^verbatim>\<open>find("*/e.txt")\<close> returns
  nothing when the matcher does not match the directories \<^verbatim>\<open>b\<close> and \<^verbatim>\<open>d\<close>: the files
  are two levels below the root.
\<close>

theorem C7_find_glob:
  "(case build (Suc 0) e ''svc'' 16
           [AddFile ''a/b/c1.txt'' d1 0 True, AddFile ''a/b/c2.txt'' d2 0 True,
            AddFile ''a/d/e.txt'' d3 0 True] of
      Some (Inr c) \<Rightarrow>
        (case (findNode (m_SHM c) (tree (m_TreeMeta c)) ''a/b/c1.txt'',
               findNode (m_SHM c) (tree (m_TreeMeta c)) ''a/b/c2.txt'',
               findNode (m_SHM c) (tree (m_TreeMeta c)) ''a/d/e.txt'') of
           (Some n1, Some n2, Some n3) \<Rightarrow>
             distinct [n1, n2, n3]
             \<and> CILess (m_Name (node_at (m_SHM c) n1)) (m_Name (node_at (m_SHM c) n2))
             \<and> find_pattern pm (Suc fuel) (m_SHM c) (tree (m_TreeMeta c)) ''a/b/*.txt''
                 = Some (filter (\<lambda>n. full_match pm (m_Name (node_at (m_SHM c) n)) ''*.txt'')
                           [n1, n2])
             \<and> (full_match pm ''c1.txt'' ''*.txt'' \<and> full_match pm ''c2.txt'' ''*.txt'' \<longrightarrow>
                  find_pattern pm (Suc fuel) (m_SHM c) (tree (m_TreeMeta c)) ''a/b/*.txt''
                    = Some [n1, n2])
             \<and> find_pattern pm (Suc (Suc fuel)) (m_SHM c) (tree (m_TreeMeta c)) ''a/*/e.txt''
                 = Some (filter (\<lambda>n. full_match pm (m_Name (node_at (m_SHM c) n)) ''/e.txt'')
                           [n1, n2, n3])
             \<and> (pm ''b'' ''/e.txt'' = None \<and> pm ''d'' ''/e.txt'' = None \<longrightarrow>
                  find_pattern pm (Suc (Suc fuel)) (m_SHM c) (tree (m_TreeMeta c)) ''*/e.txt''
                    = Some [])
         | _ \<Rightarrow> False)
    | _ \<Rightarrow> False)
   \<and> (is_separator sep \<longrightarrow>
        findLocal pm (Suc fuel) shm a out (CHR ''*'' # sep # rest)
          = map_option ((@) out) (one_level pm fuel shm a (CHR ''*'' # sep # rest)))"
proof (rule conjI)
  show "case build (Suc 0) e ''svc'' 16
           [AddFile ''a/b/c1.txt'' d1 0 True, AddFile ''a/b/c2.txt'' d2 0 True,
            AddFile ''a/d/e.txt'' d3 0 True] of
      Some (Inr c) \<Rightarrow>
        (case (findNode (m_SHM c) (tree (m_TreeMeta c)) ''a/b/c1.txt'',
               findNode (m_SHM c) (tree (m_TreeMeta c)) ''a/b/c2.txt'',
               findNode (m_SHM c) (tree (m_TreeMeta c)) ''a/d/e.txt'') of
           (Some n1, Some n2, Some n3) \<Rightarrow>
             distinct [n1, n2, n3]
             \<and> CILess (m_Name (node_at (m_SHM c) n1)) (m_Name (node_at (m_SHM c) n2))
             \<and> find_pattern pm (Suc fuel) (m_SHM c) (tree (m_TreeMeta c)) ''a/b/*.txt''
                 = Some (filter (\<lambda>n. full_match pm (m_Name (node_at (m_SHM c) n)) ''*.txt'')
                           [n1, n2])
             \<and> (full_match pm ''c1.txt'' ''*.txt'' \<and> full_match pm ''c2.txt'' ''*.txt'' \<longrightarrow>
                  find_pattern pm (Suc fuel) (m_SHM c) (tree (m_TreeMeta c)) ''a/b/*.txt''
                    = Some [n1, n2])
             \<and> find_pattern pm (Suc (Suc fuel)) (m_SHM c) (tree (m_TreeMeta c)) ''a/*/e.txt''
                 = Some (filter (\<lambda>n. full_match pm (m_Name (node_at (m_SHM c) n)) ''/e.txt'')
                           [n1, n2, n3])
             \<and> (pm ''b'' ''/e.txt'' = None \<and> pm ''d'' ''/e.txt'' = None \<longrightarrow>
                  find_pattern pm (Suc (Suc fuel)) (m_SHM c) (tree (m_TreeMeta c)) ''*/e.txt''
                    = Some [])
         | _ \<Rightarrow> False)
    | _ \<Rightarrow> False"
  proof -
    from find_scenario_tree [of e d1 d2 d3] obtain c where b: "build (Suc 0) e ''svc'' 16
           [AddFile ''a/b/c1.txt'' d1 0 True, AddFile ''a/b/c2.txt'' d2 0 True,
            AddFile ''a/d/e.txt'' d3 0 True] = Some (Inr c)"
      and r: "tree (m_TreeMeta c) = 0"
      and n: "map (\<lambda>i. m_Nodes (node_at (m_SHM c) i)) [0, 1, 2, 3, 4, 5, 6]
            = [[(''a'', 1)], [(''b'', 2), (''d'', 5)], [(''c1.txt'', 3), (''c2.txt'', 4)], [], [],
               [(''e.txt'', 6)], []]"
      and m: "map (\<lambda>i. m_Name (node_at (m_SHM c) i)) [1, 2, 3, 4, 5, 6]
            = [''a'', ''b'', ''c1.txt'', ''c2.txt'', ''d'', ''e.txt'']"
      and d: "map (\<lambda>i. isDirectory (node_at (m_SHM c) i)) [1, 2, 3, 4, 5, 6]
            = [True, True, False, False, True, False]"
      and f: "findNode (m_SHM c) (tree (m_TreeMeta c)) ''a/b/c1.txt'' = Some 3"
      "findNode (m_SHM c) (tree (m_TreeMeta c)) ''a/b/c2.txt'' = Some 4"
      "findNode (m_SHM c) (tree (m_TreeMeta c)) ''a/d/e.txt'' = Some 6"
      "findNode (m_SHM c) (tree (m_TreeMeta c)) ''a/b'' = Some 2"
      "findNode (m_SHM c) (tree (m_TreeMeta c)) ''a'' = Some 1"
      by (elim exE conjE) (rule that)
    have o: "CILess (m_Name (node_at (m_SHM c) 3)) (m_Name (node_at (m_SHM c) 4))"
      using m by (simp add: c_str_def CILess_def tolower_ascii_def)
    have g1: "find_pattern pm (Suc fuel) (m_SHM c) (tree (m_TreeMeta c)) ''a/b/*.txt''
        = Some (filter (\<lambda>n. full_match pm (m_Name (node_at (m_SHM c) n)) ''*.txt'') [3, 4])"
      using r n m d f
      by (cases "pm ''c1.txt'' ''*.txt''"; cases "pm ''c2.txt'' ''*.txt''")
         (simp_all add: find_eval full_match_def c_str_def)
    have g2: "find_pattern pm (Suc (Suc fuel)) (m_SHM c) (tree (m_TreeMeta c)) ''a/*/e.txt''
        = Some (filter (\<lambda>n. full_match pm (m_Name (node_at (m_SHM c) n)) ''/e.txt'') [3, 4, 6])"
      using r n m d f
      by (cases "pm ''c1.txt'' ''/e.txt''"; cases "pm ''c2.txt'' ''/e.txt''";
          cases "pm ''e.txt'' ''/e.txt''")
         (simp_all add: find_eval full_match_def c_str_def)
    have g3: "pm ''b'' ''/e.txt'' = None \<and> pm ''d'' ''/e.txt'' = None \<longrightarrow>
        find_pattern pm (Suc (Suc fuel)) (m_SHM c) (tree (m_TreeMeta c)) ''*/e.txt'' = Some []"
      using r n m d by (simp add: find_eval c_str_def)
    have g4: "full_match pm ''c1.txt'' ''*.txt'' \<and> full_match pm ''c2.txt'' ''*.txt'' \<longrightarrow>
        find_pattern pm (Suc fuel) (m_SHM c) (tree (m_TreeMeta c)) ''a/b/*.txt'' = Some [3, 4]"
      unfolding g1 using m by simp
    have "distinct [3, 4, 6 :: nat]" by simp
    with o g1 g2 g3 g4 show ?thesis
      unfolding b f option.case sum.case prod.case by (intro conjI)
  qed
next
  show "is_separator sep \<longrightarrow>
        findLocal pm (Suc fuel) shm a out (CHR ''*'' # sep # rest)
          = map_option ((@) out) (one_level pm fuel shm a (CHR ''*'' # sep # rest))"
  proof
    assume s: "is_separator sep"
    have "findLocal pm (Suc fuel) shm a out (CHR ''*'' # sep # rest)
        = map_option ((@) out) (findLocal_loop pm fuel shm (m_Nodes (node_at shm a)) []
            (CHR ''*'' # sep # rest))"
      unfolding findLocal.simps by (rule findLocal_loop_acc) (rule findLocal_acc)
    also have "findLocal_loop pm fuel shm (m_Nodes (node_at shm a)) [] (CHR ''*'' # sep # rest)
        = one_level pm fuel shm a (CHR ''*'' # sep # rest)"
      by (simp add: one_level_def findLocal_loop_star [OF s] cong: if_cong)
    finally show "findLocal pm (Suc fuel) shm a out (CHR ''*'' # sep # rest)
          = map_option ((@) out) (one_level pm fuel shm a (CHR ''*'' # sep # rest))" .
  qed
qed

text \<open>
  A matcher that knows the two patterns of the scenario: it matches every name against
  \<^verbatim>\<open>*.txt\<close> and the name \<^verbatim>\<open>e.txt\<close> against \<^verbatim>\<open>/e.txt\<close>, and nothing else.
\<close>

theorem C7_find_glob_witness:
  "full_match (\<lambda>name pattern. if pattern = ''*.txt'' \<or> (pattern = ''/e.txt'' \<and> name = ''e.txt'')
                                then Some [] else None) ''c1.txt'' ''*.txt''
   \<and> is_separator CHR ''/''
   \<and> (case build (Suc 0) (0::int) ''svc'' 16
          [AddFile ''a/b/c1.txt'' 1 0 True, AddFile ''a/b/c2.txt'' 2 0 True,
           AddFile ''a/d/e.txt'' 3 0 True] of
      Some (Inr c) \<Rightarrow>
        find_pattern (\<lambda>name pattern. if pattern = ''*.txt'' \<or> (pattern = ''/e.txt'' \<and> name = ''e.txt'')
                                      then Some [] else None)
             (Suc (Suc 0)) (m_SHM c) (tree (m_TreeMeta c)) ''a/b/*.txt'' = Some [3, 4]
        \<and> map (\<lambda>a. m_Name (node_at (m_SHM c) a)) [3, 4, 6] = [''c1.txt'', ''c2.txt'', ''e.txt'']
        \<and> find_pattern (\<lambda>name pattern. if pattern = ''*.txt'' \<or> (pattern = ''/e.txt'' \<and> name = ''e.txt'')
                                      then Some [] else None)
             (Suc (Suc (Suc 0))) (m_SHM c) (tree (m_TreeMeta c)) ''a/*/e.txt'' = Some [6]
        \<and> find_pattern (\<lambda>name pattern. if pattern = ''*.txt'' \<or> (pattern = ''/e.txt'' \<and> name = ''e.txt'')
                                      then Some [] else None)
             (Suc (Suc (Suc 0))) (m_SHM c) (tree (m_TreeMeta c)) ''*/e.txt'' = Some []
        \<and> findLocal (\<lambda>name pattern. if pattern = ''*.txt'' \<or> (pattern = ''/e.txt'' \<and> name = ''e.txt'')
                                      then Some [] else None)
             (Suc (Suc 0)) (m_SHM c) 1 [] ''*/e.txt'' = Some [6]
    | _ \<Rightarrow> False)"
proof -
  let ?pm = "\<lambda>name pattern :: string.
      if pattern = ''*.txt'' \<or> (pattern = ''/e.txt'' \<and> name = ''e.txt'')
      then Some ([] :: string) else None"
  from find_scenario_tree [of "0 :: int" 1 2 3] obtain c where b: "build (Suc 0) (0::int) ''svc'' 16
           [AddFile ''a/b/c1.txt'' 1 0 True, AddFile ''a/b/c2.txt'' 2 0 True,
            AddFile ''a/d/e.txt'' 3 0 True] = Some (Inr c)"
      and r: "tree (m_TreeMeta c) = 0"
      and n: "map (\<lambda>i. m_Nodes (node_at (m_SHM c) i)) [0, 1, 2, 3, 4, 5, 6]
            = [[(''a'', 1)], [(''b'', 2), (''d'', 5)], [(''c1.txt'', 3), (''c2.txt'', 4)], [], [],
               [(''e.txt'', 6)], []]"
      and m: "map (\<lambda>i. m_Name (node_at (m_SHM c) i)) [1, 2, 3, 4, 5, 6]
            = [''a'', ''b'', ''c1.txt'', ''c2.txt'', ''d'', ''e.txt'']"
      and d: "map (\<lambda>i. isDirectory (node_at (m_SHM c) i)) [1, 2, 3, 4, 5, 6]
            = [True, True, False, False, True, False]"
      and f: "findNode (m_SHM c) (tree (m_TreeMeta c)) ''a/b/c1.txt'' = Some 3"
      "findNode (m_SHM c) (tree (m_TreeMeta c)) ''a/b/c2.txt'' = Some 4"
      "findNode (m_SHM c) (tree (m_TreeMeta c)) ''a/d/e.txt'' = Some 6"
      by (elim exE conjE) (rule that)
  have h1: "full_match ?pm ''c1.txt'' ''*.txt''" "full_match ?pm ''c2.txt'' ''*.txt''"
    by (simp_all add: full_match_def c_str_def)
  have h2: "?pm ''b'' ''/e.txt'' = None \<and> ?pm ''d'' ''/e.txt'' = None" by simp
  have h3: "is_separator CHR ''/''" by (simp add: is_separator_def)
  note t = C7_find_glob [where pm = ?pm and e = "0 :: int" and ?d1.0 = 1 and ?d2.0 = 2
      and ?d3.0 = 3 and fuel = "Suc 0" and sep = "CHR ''/''" and shm = "m_SHM c" and a = 1
      and out = "[]" and rest = "''e.txt''"]
  note u = t [THEN conjunct1, unfolded b f option.case sum.case prod.case]
  note s = u [THEN conjunct2, THEN conjunct2, THEN conjunct2, THEN conjunct1]
  note s2 = u [THEN conjunct2, THEN conjunct2, THEN conjunct2, THEN conjunct2, THEN conjunct1]
  note s3 = u [THEN conjunct2, THEN conjunct2, THEN conjunct2, THEN conjunct2, THEN conjunct2]
  from s h1
  have g1: "find_pattern ?pm (Suc (Suc 0)) (m_SHM c) (tree (m_TreeMeta c)) ''a/b/*.txt'' = Some [3, 4]"
    by (rule mp [OF _ conjI])
  have nm: "map (\<lambda>a. m_Name (node_at (m_SHM c) a)) [3, 4, 6] = [''c1.txt'', ''c2.txt'', ''e.txt'']"
    using m by simp
  have "filter (\<lambda>n. full_match ?pm (m_Name (node_at (m_SHM c) n)) ''/e.txt'') [3, 4, 6] = [6]"
    using m by (simp add: full_match_def c_str_def)
  with s2
  have g2: "find_pattern ?pm (Suc (Suc (Suc 0))) (m_SHM c) (tree (m_TreeMeta c)) ''a/*/e.txt'' = Some [6]"
    by simp
  from s3 h2
  have g3: "find_pattern ?pm (Suc (Suc (Suc 0))) (m_SHM c) (tree (m_TreeMeta c)) ''*/e.txt'' = Some []"
    by (rule mp)
  have "one_level ?pm (Suc 0) (m_SHM c) 1 ''*/e.txt'' = Some [6]"
    using n m d by (simp add: one_level_def full_match_def c_str_def)
  with t [THEN conjunct2, THEN mp, OF h3]
  have g4: "findLocal ?pm (Suc (Suc 0)) (m_SHM c) 1 [] ''*/e.txt'' = Some [6]"
    by simp
  from g1 nm g2 g3 g4 h1(1) h3 show ?thesis
    unfolding b option.case sum.case by (intro conjI)
qed

section \<open>Lookup does not see the case of letters\<close>

lemma findNode_iter_cong:
  "list_all2 (\<lambda>x y. fold_key x = fold_key y) ps qs \<Longrightarrow>
   findNode_iter shm a ps = findNode_iter shm a qs"
proof (induction ps qs arbitrary: a rule: list_all2_induct)
  case Nil
  show ?case by simp
next
  case (Cons x xs y ys)
  from Cons.hyps(1) have "fold_key (c_str x) = fold_key (c_str y)"
    by (simp add: fold_key_c_str)
  then have m: "map_find (m_Nodes (node_at shm a)) (c_str x)
      = map_find (m_Nodes (node_at shm a)) (c_str y)"
    by (rule map_find_cong)
  from Cons.hyps(2) have e: "xs = [] \<longleftrightarrow> ys = []" by (auto dest: list_all2_lengthD)
  show ?case
  proof (cases "map_find (m_Nodes (node_at shm a)) (c_str y)")
    case None
    with m show ?thesis by (simp add: findNode_iter_Cons)
  next
    case (Some sub)
    with m e Cons.IH [of sub] show ?thesis by (simp add: findNode_iter_Cons)
  qed
qed

text \<open>
  C8. Two paths whose components are the same keys under ASCII case folding resolve to
  the same node (or both to none), from every node of every arena; so do \<^verbatim>\<open>FOO/bar\<close> and
  \<^verbatim>\<open>Foo/Bar\<close>, and after \<^verbatim>\<open>addFile("Foo/Bar", d)\<close> on an empty tree both resolve to the
  node that was added. The order of the keys is the lexicographic order of their folded
  bytes, each byte compared by its value, and two keys are the same key when neither
  comes before the other, that is when their folded bytes are equal.
\<close>

theorem C8_case_insensitive_lookup:
  "(list_all2 (\<lambda>x y. fold_key x = fold_key y) (path_components p) (path_components q) \<longrightarrow>
      findNode shm a p = findNode shm a q)
   \<and> findNode shm a ''FOO/bar'' = findNode shm a ''Foo/Bar''
   \<and> (case build (Suc 0) createEmpty ''svc'' 16 [AddFile ''Foo/Bar'' d 0 True] of
        Some (Inr c) \<Rightarrow>
          (case findNode (m_SHM c) (tree (m_TreeMeta c)) ''FOO/bar'' of
             Some n \<Rightarrow> m_Name (node_at (m_SHM c) n) = ''Bar'' \<and> m_Data (node_at (m_SHM c) n) = d
                \<and> findNode (m_SHM c) (tree (m_TreeMeta c)) ''Foo/Bar'' = Some n
           | None \<Rightarrow> False)
      | _ \<Rightarrow> False)
   \<and> (CILess x y \<longleftrightarrow> (fold_key x, fold_key y) \<in> lexord {(a, b). a < b})
   \<and> (\<not> CILess x y \<and> \<not> CILess y x \<longleftrightarrow> fold_key x = fold_key y)"
proof (intro conjI)
  show "list_all2 (\<lambda>x y. fold_key x = fold_key y) (path_components p) (path_components q) \<longrightarrow>
      findNode shm a p = findNode shm a q"
    unfolding findNode_def by (auto intro: findNode_iter_cong)
  have "list_all2 (\<lambda>x y. fold_key x = fold_key y) (path_components ''FOO/bar'')
      (path_components ''Foo/Bar'')"
    by (simp add: path_components_def is_separator_def fold_key_def c_str_def tolower_ascii_def)
  then show "findNode shm a ''FOO/bar'' = findNode shm a ''Foo/Bar''"
    unfolding findNode_def by (rule findNode_iter_cong)
  show "case build (Suc 0) createEmpty ''svc'' 16 [AddFile ''Foo/Bar'' d 0 True] of
        Some (Inr c) \<Rightarrow>
          (case findNode (m_SHM c) (tree (m_TreeMeta c)) ''FOO/bar'' of
             Some n \<Rightarrow> m_Name (node_at (m_SHM c) n) = ''Bar'' \<and> m_Data (node_at (m_SHM c) n) = d
                \<and> findNode (m_SHM c) (tree (m_TreeMeta c)) ''Foo/Bar'' = Some n
           | None \<Rightarrow> False)
      | _ \<Rightarrow> False"
    by (simp add: tree_eval)
  show "CILess x y \<longleftrightarrow> (fold_key x, fold_key y) \<in> lexord {(a, b). a < b}"
    by (rule CILess_lexord)
  show "\<not> CILess x y \<and> \<not> CILess y x \<longleftrightarrow> fold_key x = fold_key y"
    by (rule CILess_equiv)
qed

theorem C8_case_insensitive_lookup_witness:
  "list_all2 (\<lambda>x y. fold_key x = fold_key y) (path_components ''a/B/c1.TXT'')
      (path_components (''A'' @ [CHR 0x5C] @ ''b//C1.txt''))
   \<and> (case build (Suc 0) (0::int) ''svc'' 16 [AddFile ''a/b/c1.txt'' 1 0 True] of
        Some (Inr c) \<Rightarrow>
          findNode (m_SHM c) (tree (m_TreeMeta c)) ''a/B/c1.TXT''
            = findNode (m_SHM c) (tree (m_TreeMeta c)) (''A'' @ [CHR 0x5C] @ ''b//C1.txt'')
          \<and> findNode (m_SHM c) (tree (m_TreeMeta c)) ''a/B/c1.TXT'' \<noteq> None
      | _ \<Rightarrow> False)"
proof -
  have h: "list_all2 (\<lambda>x y. fold_key x = fold_key y) (path_components ''a/B/c1.TXT'')
      (path_components (''A'' @ [CHR 0x5C] @ ''b//C1.txt''))"
    by (simp add: path_components_def is_separator_def fold_key_def c_str_def tolower_ascii_def)
  have "\<exists>c. build (Suc 0) (0::int) ''svc'' 16 [AddFile ''a/b/c1.txt'' 1 0 True] = Some (Inr c)
      \<and> findNode (m_SHM c) (tree (m_TreeMeta c)) ''a/B/c1.TXT'' \<noteq> None"
    by (simp add: tree_eval)
  then obtain c where
    b: "build (Suc 0) (0::int) ''svc'' 16 [AddFile ''a/b/c1.txt'' 1 0 True] = Some (Inr c)"
    and f: "findNode (m_SHM c) (tree (m_TreeMeta c)) ''a/B/c1.TXT'' \<noteq> None" by blast
  from C8_case_insensitive_lookup [of "''a/B/c1.TXT''" "''A'' @ [CHR 0x5C] @ ''b//C1.txt''" "m_SHM c"
      "tree (m_TreeMeta c)", THEN conjunct1, THEN mp, OF h]
  have "findNode (m_SHM c) (tree (m_TreeMeta c)) ''a/B/c1.TXT''
            = findNode (m_SHM c) (tree (m_TreeMeta c)) (''A'' @ [CHR 0x5C] @ ''b//C1.txt'')" .
  with b f h show ?thesis by (simp del: append.simps)
qed

section \<open>Arena names\<close>






















section \<open>The hook manager: the singleton\<close>

text \<open>
  C10 fails on the code. The destructor does not reset \<^verbatim>\<open>s_Instance\<close>: whatever the
  state of the process and whichever manager is destroyed, \<^verbatim>\<open>instance()\<close> answers after
  the destruction as it did before. So once the one manager has been constructed and
  destroyed, \<^verbatim>\<open>instance()\<close> does not throw but returns the manager that is gone, no
  manager is alive, and constructing a manager again throws the error of a duplicate.
  \<^verbatim>\<open>logStub\<close> catches what \<^verbatim>\<open>instance()\<close> throws and logs ``called after shutdown'': the
  code expects the throw there.
\<close>

theorem C10_instance_survives_destruction:
  "HookManager_instance (HookManager_dtor p st) = HookManager_instance st
   \<and> HookManager_instance (hm_run [Construct 1, Destroy 1]) = Inr 1
   \<and> hm_live (hm_run [Construct 1, Destroy 1]) = {}
   \<and> HookManager_ctor 2 (hm_run [Construct 1, Destroy 1]) =
        (Inl (RuntimeError ''singleton duplicate instantiation (HookManager)''),
         hm_run [Construct 1, Destroy 1])"
  by (simp add: hm_run_def hm_initial_def HookManager_ctor_def HookManager_dtor_def
      HookManager_instance_def)

end
